theory Spec2Isabelle
  imports Complex_Main
begin

section \<open>Python values at the interface of MilvusLTM\<close>

text \<open>
  The exceptions the methods of \<open>MilvusLTM\<close> can end with: \<open>KeyError\<close> and
  \<open>ValueError\<close> are raised by the class itself, \<open>PicklingError\<close> by
  \<open>pickle.dumps\<close>, \<open>DecodeError\<close> by \<open>base64.b64decode\<close> or \<open>pickle.loads\<close>,
  and \<open>MilvusException\<close> by the client of the storage engine.
\<close>

datatype error = KeyError | ValueError | PicklingError | DecodeError | MilvusException

text \<open>
  Keys are declared \<open>Any\<close> and every method starts with \<open>key_str = str(key)\<close>.
  The key values modelled are strings, integers, booleans and \<open>None\<close>.
\<close>

datatype pykey = KStr string | KInt int | KBool bool | KNone

function str_nat :: "nat \<Rightarrow> string" where
  "str_nat n = (if n < 10 then [''0123456789'' ! n]
                else str_nat (n div 10) @ [''0123456789'' ! (n mod 10)])"
  by pat_completeness auto
termination
  by (relation "measure (\<lambda>n. n)") auto

declare str_nat.simps [simp del]

fun str_py :: "pykey \<Rightarrow> string" where
  "str_py (KStr s) = s"
| "str_py (KInt i) = (if i < 0 then CHR ''-'' # str_nat (nat (- i)) else str_nat (nat i))"
| "str_py (KBool b) = (if b then ''True'' else ''False'')"
| "str_py KNone = ''None''"

text \<open>
  The second argument of \<open>__setitem__\<close>: either not a dictionary, or a dictionary, of
  which only the entries \<open>"value"\<close> and \<open>"embedding"\<close> are read. An entry is \<open>None\<close>
  when the dictionary lacks the key; the embedding itself may be Python's \<open>None\<close>
  (\<open>Some None\<close>) or a list of floats.
\<close>

datatype 'v pyvalue =
  NotDict
| Dict (entry_value: "'v option") (entry_embedding: "real list option option")

section \<open>The serialisation of payloads\<close>

text \<open>
  \<open>pickle\<close> and \<open>base64\<close> are library code: they are parameters of the model.
  \<open>pickle_dumps\<close> is \<open>None\<close> for an object that cannot be pickled, the two decoders
  are \<open>None\<close> where the library raises.
\<close>

record 'v codec =
  pickle_dumps :: "'v \<Rightarrow> string option"
  pickle_loads :: "string \<Rightarrow> 'v option"
  b64encode :: "string \<Rightarrow> string"
  b64decode :: "string \<Rightarrow> string option"

definition serialize :: "'v codec \<Rightarrow> 'v \<Rightarrow> error + string" where
  "serialize c actual_value =
     (case pickle_dumps c actual_value of
        None \<Rightarrow> Inl PicklingError
      | Some value_bytes \<Rightarrow> Inr (b64encode c value_bytes))"

definition deserialize :: "'v codec \<Rightarrow> string \<Rightarrow> error + 'v" where
  "deserialize c value_base64 =
     (case b64decode c value_base64 of
        None \<Rightarrow> Inl DecodeError
      | Some value_bytes \<Rightarrow>
          (case pickle_loads c value_bytes of
             None \<Rightarrow> Inl DecodeError
           | Some v \<Rightarrow> Inr v))"

text \<open>What the libraries promise: decoding undoes encoding.\<close>

definition codec_ok :: "'v codec \<Rightarrow> bool" where
  "codec_ok c \<longleftrightarrow>
     (\<forall>v bs. pickle_dumps c v = Some bs \<longrightarrow> pickle_loads c bs = Some v) \<and>
     (\<forall>bs. b64decode c (b64encode c bs) = Some bs)"

section \<open>The storage engine behind the connector\<close>

text \<open>
  Modelled from the spec: the connector \<open>MilvusConnector\<close> and the client it wraps
  are not among the source files. The spec (sections 3 and 6) gives the operations
  \<open>hasCollection\<close>, \<open>createCollection\<close>, \<open>query\<close>, \<open>insert\<close>, \<open>delete\<close> and \<open>search\<close>,
  the schema \<open>{key: string(\<le>256), payload: string(\<le>65535), embedding: float-vector(D)}\<close>,
  and that a read against a collection that does not exist behaves as "not found".
  A collection keeps its rows in insertion order; \<open>insert\<close> appends and does not
  look for an earlier row with the same key.
\<close>

type_synonym row = "string \<times> string \<times> real list"

record collection =
  key_max :: nat
  value_max :: nat
  coll_dim :: nat
  rows :: "row list"

type_synonym backend = "string \<Rightarrow> collection option"

subsection \<open>Filter expressions\<close>

text \<open>
  The store sends its filters as text: \<open>key == "..."\<close> with the key between the
  quotes, \<open>key != ""\<close>, and the empty expression, which selects every row. The engine
  reads the text in its own expression language, which is not part of the repository.
  The model has the fragment of it that these texts, with a key pasted in, can fall
  into: comparisons of the field \<open>key\<close> with a double-quoted literal, by \<open>==\<close> or
  \<open>!=\<close>, and their disjunction by \<open>or\<close>. A literal ends at the next double quote;
  a literal with a backslash (an escape sequence) and every other text is refused by
  the engine.
\<close>

datatype filter_expr =
  FAll
| KeyEq string
| KeyNe string
| FOr filter_expr filter_expr

abbreviation dquote :: char where
  "dquote \<equiv> CHR 0x22"

abbreviation backslash :: char where
  "backslash \<equiv> CHR 0x5C"

fun strip_prefix :: "string \<Rightarrow> string \<Rightarrow> string option" where
  "strip_prefix [] s = Some s"
| "strip_prefix (p # ps) [] = None"
| "strip_prefix (p # ps) (c # cs) = (if p = c then strip_prefix ps cs else None)"

fun lit_body :: "string \<Rightarrow> (string \<times> string) option" where
  "lit_body [] = None"
| "lit_body (c # cs) =
     (if c = dquote then Some ([], cs)
      else if c = backslash then None
      else (case lit_body cs of
              None \<Rightarrow> None
            | Some (l, r) \<Rightarrow> Some (c # l, r)))"

definition parse_cmp :: "string \<Rightarrow> (filter_expr \<times> string) option" where
  "parse_cmp s =
     (case strip_prefix (''key == '' @ [dquote]) s of
        Some r \<Rightarrow> (case lit_body r of
                     None \<Rightarrow> None
                   | Some (l, r') \<Rightarrow> Some (KeyEq l, r'))
      | None \<Rightarrow>
          (case strip_prefix (''key != '' @ [dquote]) s of
             Some r \<Rightarrow> (case lit_body r of
                          None \<Rightarrow> None
                        | Some (l, r') \<Rightarrow> Some (KeyNe l, r'))
           | None \<Rightarrow> None))"

function parse_or :: "string \<Rightarrow> filter_expr option" where
  "parse_or s =
     (case parse_cmp s of
        None \<Rightarrow> None
      | Some (f, r) \<Rightarrow>
          (if r = [] then Some f
           else (case strip_prefix '' or '' r of
                   None \<Rightarrow> None
                 | Some r' \<Rightarrow> map_option (FOr f) (parse_or r'))))"
  by pat_completeness auto
termination
proof (relation "measure length", goal_cases)
  case 1
  show ?case by simp
next
  case (2 s x2 f r r')
  have sp: "\<And>p t u. strip_prefix p t = Some u \<Longrightarrow> length u \<le> length t"
  proof -
    fix p t u show "strip_prefix p t = Some u \<Longrightarrow> length u \<le> length t"
      by (induction p t rule: strip_prefix.induct) (auto split: if_splits)
  qed
  have lb: "\<And>t l u. lit_body t = Some (l, u) \<Longrightarrow> length u < length t"
  proof -
    fix t l u show "lit_body t = Some (l, u) \<Longrightarrow> length u < length t"
      by (induction t arbitrary: l u) (auto split: if_splits option.splits)
  qed
  from 2 have "length r < length s"
    unfolding parse_cmp_def by (auto split: option.splits dest!: sp lb)
  moreover from 2 have "length r' \<le> length r" by (auto dest: sp)
  ultimately show ?case by simp
qed

declare parse_or.simps [simp del]

definition parse_filter :: "string \<Rightarrow> filter_expr option" where
  "parse_filter e = (if e = [] then Some FAll else parse_or e)"

fun matches :: "filter_expr \<Rightarrow> row \<Rightarrow> bool" where
  "matches FAll r = True"
| "matches (KeyEq s) r = (fst r = s)"
| "matches (KeyNe s) r = (fst r \<noteq> s)"
| "matches (FOr f g) r = (matches f r \<or> matches g r)"

subsection \<open>The operations of the client\<close>

definition rows_of :: "backend \<Rightarrow> string \<Rightarrow> row list" where
  "rows_of b n = (case b n of None \<Rightarrow> [] | Some c \<Rightarrow> rows c)"

definition has_collection :: "backend \<Rightarrow> string \<Rightarrow> bool" where
  "has_collection b n = (b n \<noteq> None)"

definition create_collection :: "backend \<Rightarrow> string \<Rightarrow> nat \<Rightarrow> nat \<Rightarrow> nat \<Rightarrow> backend" where
  "create_collection b n kmax vmax d =
     b(n \<mapsto> \<lparr>key_max = kmax, value_max = vmax, coll_dim = d, rows = []\<rparr>)"

fun limit_rows :: "nat option \<Rightarrow> row list \<Rightarrow> row list" where
  "limit_rows None rs = rs"
| "limit_rows (Some l) rs = take l rs"

definition query :: "backend \<Rightarrow> string \<Rightarrow> string \<Rightarrow> nat option \<Rightarrow> error + row list" where
  "query b n e lmt =
     (case b n of
        None \<Rightarrow> Inr []
      | Some c \<Rightarrow>
          (case parse_filter e of
             None \<Rightarrow> Inl MilvusException
           | Some f \<Rightarrow> Inr (limit_rows lmt (filter (matches f) (rows c)))))"

definition insert_row :: "backend \<Rightarrow> string \<Rightarrow> row \<Rightarrow> error + backend" where
  "insert_row b n r =
     (case b n of
        None \<Rightarrow> Inl MilvusException
      | Some c \<Rightarrow>
          (if length (fst r) \<le> key_max c \<and> length (fst (snd r)) \<le> value_max c
              \<and> length (snd (snd r)) = coll_dim c
           then Inr (b(n \<mapsto> c\<lparr>rows := rows c @ [r]\<rparr>))
           else Inl MilvusException))"

definition delete_rows :: "backend \<Rightarrow> string \<Rightarrow> string \<Rightarrow> error + backend" where
  "delete_rows b n e =
     (case b n of
        None \<Rightarrow> Inl MilvusException
      | Some c \<Rightarrow>
          (case parse_filter e of
             None \<Rightarrow> Inl MilvusException
           | Some f \<Rightarrow> Inr (b(n \<mapsto> c\<lparr>rows := filter (\<lambda>r. \<not> matches f r) (rows c)\<rparr>))))"

text \<open>
  A match of \<open>search\<close> is the key and the stored value of a row with its score.
  The metric (cosine similarity, computed by the engine on floats) is a parameter;
  the matches come best first, at most \<open>top_k\<close> of them.
\<close>

type_synonym match = "string \<times> string \<times> real"

definition score_row :: "(real list \<Rightarrow> real list \<Rightarrow> real) \<Rightarrow> real list \<Rightarrow> row \<Rightarrow> match" where
  "score_row metric q r = (fst r, fst (snd r), metric q (snd (snd r)))"

definition search ::
  "(real list \<Rightarrow> real list \<Rightarrow> real) \<Rightarrow> backend \<Rightarrow> string \<Rightarrow> real list \<Rightarrow> nat
     \<Rightarrow> error + match list" where
  "search metric b n q top_k =
     (case b n of
        None \<Rightarrow> Inr []
      | Some c \<Rightarrow>
          (if length q = coll_dim c
           then Inr (take top_k (sort_key (\<lambda>m. - snd (snd m)) (map (score_row metric q) (rows c))))
           else Inl MilvusException))"

section \<open>MilvusLTM\<close>

record ltm =
  storage_name :: string
  dim :: nat

definition create_collection_if_absent :: "ltm \<Rightarrow> backend \<Rightarrow> backend" where
  "create_collection_if_absent m b =
     (if \<not> has_collection b (storage_name m)
      then create_collection b (storage_name m) 256 65535 (dim m)
      else b)"

text \<open>The f-string \<open>f'key == "{key_str}"'\<close>: the key is pasted in as it is.\<close>

definition key_expr :: "string \<Rightarrow> string" where
  "key_expr key_str = ''key == '' @ [dquote] @ key_str @ [dquote]"

text \<open>The filter \<open>'key != ""'\<close> of \<open>__len__\<close>, \<open>values\<close>, \<open>items\<close> and \<open>clear\<close>.\<close>

definition nonempty_expr :: string where
  "nonempty_expr = ''key != '' @ [dquote, dquote]"

definition getitem :: "'v codec \<Rightarrow> ltm \<Rightarrow> backend \<Rightarrow> pykey \<Rightarrow> error + 'v" where
  "getitem c m b key =
     (let key_str = str_py key; expr = key_expr key_str in
      case query b (storage_name m) expr None of
        Inl e \<Rightarrow> Inl e
      | Inr res \<Rightarrow>
          (case res of
             [] \<Rightarrow> Inl KeyError
           | r # _ \<Rightarrow> deserialize c (fst (snd r))))"

definition contains :: "ltm \<Rightarrow> backend \<Rightarrow> pykey \<Rightarrow> error + bool" where
  "contains m b key =
     (let key_str = str_py key; expr = key_expr key_str in
      case query b (storage_name m) expr None of
        Inl e \<Rightarrow> Inl e
      | Inr res \<Rightarrow> Inr (length res > 0))"

definition delitem :: "ltm \<Rightarrow> backend \<Rightarrow> pykey \<Rightarrow> (error + unit) \<times> backend" where
  "delitem m b key =
     (let key_str = str_py key in
      case contains m b (KStr key_str) of
        Inl e \<Rightarrow> (Inl e, b)
      | Inr True \<Rightarrow>
          (case delete_rows b (storage_name m) (key_expr key_str) of
             Inl e \<Rightarrow> (Inl e, b)
           | Inr b' \<Rightarrow> (Inr (), b'))
      | Inr False \<Rightarrow> (Inl KeyError, b))"

definition setitem ::
  "'v codec \<Rightarrow> ltm \<Rightarrow> backend \<Rightarrow> pykey \<Rightarrow> 'v pyvalue \<Rightarrow> (error + unit) \<times> backend" where
  "setitem c m b key val =
     (let b1 = create_collection_if_absent m b; key_str = str_py key in
      case val of
        NotDict \<Rightarrow> (Inl ValueError, b1)
      | Dict None _ \<Rightarrow> (Inl ValueError, b1)
      | Dict (Some actual_value) None \<Rightarrow> (Inl ValueError, b1)
      | Dict (Some actual_value) (Some embedding) \<Rightarrow>
          (case serialize c actual_value of
             Inl e \<Rightarrow> (Inl e, b1)
           | Inr value_base64 \<Rightarrow>
               (case embedding of
                  None \<Rightarrow> (Inl ValueError, b1)
                | Some emb \<Rightarrow>
                    (case contains m b1 (KStr key_str) of
                       Inl e \<Rightarrow> (Inl e, b1)
                     | Inr present \<Rightarrow>
                         (case (if present then delitem m b1 (KStr key_str) else (Inr (), b1)) of
                            (Inl e, b2) \<Rightarrow> (Inl e, b2)
                          | (Inr _, b2) \<Rightarrow>
                              (case insert_row b2 (storage_name m) (key_str, value_base64, emb) of
                                 Inl e \<Rightarrow> (Inl e, b2)
                               | Inr b3 \<Rightarrow> (Inr (), b3)))))))"

definition len :: "ltm \<Rightarrow> backend \<Rightarrow> error + nat" where
  "len m b =
     (case query b (storage_name m) nonempty_expr None of
        Inl e \<Rightarrow> Inl e
      | Inr results \<Rightarrow> Inr (length results))"

definition keys :: "ltm \<Rightarrow> backend \<Rightarrow> nat option \<Rightarrow> error + string list" where
  "keys m b lmt =
     (case query b (storage_name m) [] (Some (case lmt of None \<Rightarrow> 10 | Some l \<Rightarrow> l)) of
        Inl e \<Rightarrow> Inl e
      | Inr res \<Rightarrow> Inr (map fst res))"

text \<open>
  The generators of \<open>values\<close> and \<open>items\<close> decode row after row; the model gives
  the list of what they yield, or the first error.
\<close>

fun decode_values :: "'v codec \<Rightarrow> row list \<Rightarrow> error + 'v list" where
  "decode_values c [] = Inr []"
| "decode_values c (r # rs) =
     (case deserialize c (fst (snd r)) of
        Inl e \<Rightarrow> Inl e
      | Inr v \<Rightarrow>
          (case decode_values c rs of
             Inl e \<Rightarrow> Inl e
           | Inr vs \<Rightarrow> Inr (v # vs)))"

fun decode_items :: "'v codec \<Rightarrow> row list \<Rightarrow> error + (string \<times> 'v) list" where
  "decode_items c [] = Inr []"
| "decode_items c (r # rs) =
     (case deserialize c (fst (snd r)) of
        Inl e \<Rightarrow> Inl e
      | Inr v \<Rightarrow>
          (case decode_items c rs of
             Inl e \<Rightarrow> Inl e
           | Inr kvs \<Rightarrow> Inr ((fst r, v) # kvs)))"

text \<open>
  \<open>values\<close> calls \<open>self.milvus_ltm_client._client.load(refresh=True)\<close> before its
  query. \<open>load\<close> is not among the operations the spec lists for the connector, and
  the client is not among the source files: the call is a parameter of the model. It is
  given the flag \<open>refresh\<close> and the backend, and it is \<open>None\<close> when the call
  returns and the error when it raises; loading changes no row and no collection.
\<close>

type_synonym client_load = "bool \<Rightarrow> backend \<Rightarrow> error option"

definition values_ltm :: "'v codec \<Rightarrow> client_load \<Rightarrow> ltm \<Rightarrow> backend \<Rightarrow> error + 'v list" where
  "values_ltm c load m b =
     (case load True b of
        Some e \<Rightarrow> Inl e
      | None \<Rightarrow>
          (case query b (storage_name m) nonempty_expr None of
             Inl e \<Rightarrow> Inl e
           | Inr res \<Rightarrow> decode_values c res))"

definition items :: "'v codec \<Rightarrow> ltm \<Rightarrow> backend \<Rightarrow> error + (string \<times> 'v) list" where
  "items c m b =
     (case query b (storage_name m) nonempty_expr None of
        Inl e \<Rightarrow> Inl e
      | Inr res \<Rightarrow> decode_items c res)"

text \<open>
  \<open>get(key, default=None)\<close>: the result is Python's \<open>None\<close> (here \<open>None\<close>) when the
  key is absent and no default is given.
\<close>

definition get :: "'v codec \<Rightarrow> ltm \<Rightarrow> backend \<Rightarrow> pykey \<Rightarrow> 'v option \<Rightarrow> error + 'v option" where
  "get c m b key dflt =
     (case getitem c m b key of
        Inr v \<Rightarrow> Inr (Some v)
      | Inl KeyError \<Rightarrow> Inr dflt
      | Inl e \<Rightarrow> Inl e)"

definition clear :: "ltm \<Rightarrow> backend \<Rightarrow> (error + unit) \<times> backend" where
  "clear m b =
     (case delete_rows b (storage_name m) nonempty_expr of
        Inl e \<Rightarrow> (Inl e, b)
      | Inr b' \<Rightarrow> (Inr (), b'))"

definition pop_default :: "'v option \<Rightarrow> backend \<Rightarrow> (error + 'v) \<times> backend" where
  "pop_default dflt b =
     (case dflt of
        Some d \<Rightarrow> (Inr d, b)
      | None \<Rightarrow> (Inl KeyError, b))"

definition pop :: "'v codec \<Rightarrow> ltm \<Rightarrow> backend \<Rightarrow> pykey \<Rightarrow> 'v option \<Rightarrow> (error + 'v) \<times> backend" where
  "pop c m b key dflt =
     (case getitem c m b key of
        Inl KeyError \<Rightarrow> pop_default dflt b
      | Inl e \<Rightarrow> (Inl e, b)
      | Inr v \<Rightarrow>
          (case delitem m b key of
             (Inl KeyError, b') \<Rightarrow> pop_default dflt b'
           | (Inl e, b') \<Rightarrow> (Inl e, b')
           | (Inr _, b') \<Rightarrow> (Inr v, b')))"

fun update :: "'v codec \<Rightarrow> ltm \<Rightarrow> backend \<Rightarrow> (pykey \<times> 'v pyvalue) list \<Rightarrow> (error + unit) \<times> backend" where
  "update c m b [] = (Inr (), b)"
| "update c m b (kv # other) =
     (case setitem c m b (fst kv) (snd kv) of
        (Inl e, b') \<Rightarrow> (Inl e, b')
      | (Inr _, b') \<Rightarrow> update c m b' other)"

text \<open>
  The loop of \<open>get_by_vector\<close> over the matches: each value is decoded before its
  score is compared with the threshold.
\<close>

fun collect_matches :: "'v codec \<Rightarrow> real \<Rightarrow> match list \<Rightarrow> error + (string \<times> 'v \<times> real) list" where
  "collect_matches c threshold [] = Inr []"
| "collect_matches c threshold (mt # ms) =
     (case deserialize c (fst (snd mt)) of
        Inl e \<Rightarrow> Inl e
      | Inr v \<Rightarrow>
          (case collect_matches c threshold ms of
             Inl e \<Rightarrow> Inl e
           | Inr its \<Rightarrow>
               Inr (if snd (snd mt) \<ge> threshold then (fst mt, v, snd (snd mt)) # its else its)))"

text \<open>\<open>top_k\<close> and \<open>threshold\<close> are optional: the defaults are 10 and 0.0.\<close>

definition get_by_vector ::
  "'v codec \<Rightarrow> (real list \<Rightarrow> real list \<Rightarrow> real) \<Rightarrow> ltm \<Rightarrow> backend \<Rightarrow> real list
     \<Rightarrow> nat option \<Rightarrow> real option \<Rightarrow> error + (string \<times> 'v \<times> real) list" where
  "get_by_vector c metric m b embedding top_k threshold =
     (case search metric b (storage_name m) embedding (case top_k of None \<Rightarrow> 10 | Some k \<Rightarrow> k) of
        Inl e \<Rightarrow> Inl e
      | Inr results \<Rightarrow>
          collect_matches c (case threshold of None \<Rightarrow> 0 | Some t \<Rightarrow> t) results)"

section \<open>Calls and the backend they leave\<close>

text \<open>
  A call of a method of the store, and the backend after it. The reading methods
  (\<open>__getitem__\<close>, \<open>get\<close>, \<open>__contains__\<close>, \<open>__len__\<close>, \<open>keys\<close>, \<open>values\<close>, \<open>items\<close>,
  \<open>get_by_vector\<close>) send \<open>query\<close> and \<open>search\<close> to the client, and \<open>values\<close>
  sends \<open>load\<close> before its query: none of these changes the backend.
\<close>

datatype 'v op =
  OpGet pykey
| OpGetDefault pykey "'v option"
| OpContains pykey
| OpLen
| OpKeys "nat option"
| OpValues
| OpItems
| OpSearch "real list" "nat option" "real option"
| OpSet pykey "'v pyvalue"
| OpDel pykey
| OpClear
| OpPop pykey "'v option"
| OpUpdate "(pykey \<times> 'v pyvalue) list"

fun call :: "'v codec \<Rightarrow> ltm \<Rightarrow> 'v op \<Rightarrow> backend \<Rightarrow> backend" where
  "call c m (OpSet key val) b = snd (setitem c m b key val)"
| "call c m (OpDel key) b = snd (delitem m b key)"
| "call c m OpClear b = snd (clear m b)"
| "call c m (OpPop key dflt) b = snd (pop c m b key dflt)"
| "call c m (OpUpdate other) b = snd (update c m b other)"
| "call c m _ b = b"

fun is_set :: "'v op \<Rightarrow> bool" where
  "is_set (OpSet key val) = True"
| "is_set (OpUpdate other) = (other \<noteq> [])"
| "is_set _ = False"

fun op_keys :: "'v op \<Rightarrow> pykey list" where
  "op_keys (OpGet key) = [key]"
| "op_keys (OpGetDefault key dflt) = [key]"
| "op_keys (OpContains key) = [key]"
| "op_keys (OpSet key val) = [key]"
| "op_keys (OpDel key) = [key]"
| "op_keys (OpPop key dflt) = [key]"
| "op_keys (OpUpdate other) = map fst other"
| "op_keys _ = []"

text \<open>No two rows have the same key.\<close>

definition unique_keys :: "row list \<Rightarrow> bool" where
  "unique_keys rs = distinct (map fst rs)"

text \<open>The schema of each collection of a backend: the two bounds and the dimension.\<close>

definition schema_of :: "backend \<Rightarrow> string \<Rightarrow> (nat \<times> nat \<times> nat) option" where
  "schema_of b n = map_option (\<lambda>c. (key_max c, value_max c, coll_dim c)) (b n)"

section \<open>Predicates on the stored state\<close>

text \<open>Every stored value can be decoded: what \<open>__setitem__\<close> writes has this form.\<close>

definition decodable :: "'v codec \<Rightarrow> row list \<Rightarrow> bool" where
  "decodable c rs = list_all (\<lambda>r. \<not> isl (deserialize c (fst (snd r)))) rs"

text \<open>The query vector has the dimension of the collection, where there is one.\<close>

definition query_ok :: "ltm \<Rightarrow> backend \<Rightarrow> real list \<Rightarrow> bool" where
  "query_ok m b q = (case b (storage_name m) of None \<Rightarrow> True | Some c \<Rightarrow> length q = coll_dim c)"

text \<open>
  A match as the engine returns it and an item as \<open>get_by_vector\<close> returns it, both
  with the payload as the result of decoding, so that the two can be compared.
\<close>

definition wire :: "'v codec \<Rightarrow> match \<Rightarrow> string \<times> (error + 'v) \<times> real" where
  "wire c mt = (fst mt, deserialize c (fst (snd mt)), snd (snd mt))"

definition item_wire :: "string \<times> 'v \<times> real \<Rightarrow> string \<times> (error + 'v) \<times> real" where
  "item_wire it = (fst it, Inr (fst (snd it)), snd (snd it))"

text \<open>
  A key that can stand between the quotes of \<open>f'key == "{key_str}"'\<close> and be read
  back as itself: it has no double quote and no backslash.
\<close>

definition plain :: "string \<Rightarrow> bool" where
  "plain s \<longleftrightarrow> dquote \<notin> set s \<and> backslash \<notin> set s"

text \<open>
  The collection of the store, where it exists, has the schema that
  \<open>_create_collection\<close> declares.
\<close>

definition owned :: "ltm \<Rightarrow> backend \<Rightarrow> bool" where
  "owned m b =
     (case b (storage_name m) of
        None \<Rightarrow> True
      | Some c \<Rightarrow> key_max c = 256 \<and> value_max c = 65535 \<and> coll_dim c = dim m)"


section \<open>A concrete instance\<close>

text \<open>
  A codec on strings (a tag in front for \<open>pickle\<close>, reversal for \<open>base64\<close>), the
  dot product as metric, a store of dimension 2 and a backend holding its collection.
\<close>

definition sample_codec :: "string codec" where
  "sample_codec =
     \<lparr>pickle_dumps = (\<lambda>v. Some (CHR ''P'' # v)),
      pickle_loads = (\<lambda>bs. case bs of [] \<Rightarrow> None | x # v \<Rightarrow> if x = CHR ''P'' then Some v else None),
      b64encode = rev,
      b64decode = (\<lambda>s. Some (rev s))\<rparr>"

definition dot :: "real list \<Rightarrow> real list \<Rightarrow> real" where
  "dot x y = sum_list (map2 (*) x y)"

definition store_ltm :: ltm where
  "store_ltm = \<lparr>storage_name = ''default'', dim = 2\<rparr>"

definition coll_of :: "row list \<Rightarrow> backend" where
  "coll_of rs =
     Map.empty(''default'' \<mapsto> \<lparr>key_max = 256, value_max = 65535, coll_dim = 2, rows = rs\<rparr>)"

definition two_rows :: "row list" where
  "two_rows = [(''k'', ''cbaP'', [1/2, 0]), (''j'', ''fedP'', [1, 0])]"

definition ab_rows :: "row list" where
  "ab_rows = [(''a'', ''cbaP'', [1, 0]), (''b'', ''fedP'', [0, 1])]"

definition k_rows :: "row list" where
  "k_rows = [(''k'', ''cbaP'', [1, 0])]"

definition empty_key_rows :: "row list" where
  "empty_key_rows = [([], ''cbaP'', [1, 0]), (''a'', ''fedP'', [0, 1])]"


definition neg_rows :: "row list" where
  "neg_rows = [(''k'', ''cbaP'', [-1/2, 0])]"

text \<open>The key \<open>a" or key == "b\<close>.\<close>

definition injected_key :: string where
  "injected_key = ''a'' @ [dquote] @ '' or key == '' @ [dquote] @ ''b''"

definition sample_ops :: "string op list" where
  "sample_ops =
     [OpSet (KStr ''k'') (Dict (Some ''abc'') (Some (Some [1, 0]))),
      OpSet (KInt 7) (Dict (Some ''xyz'') (Some (Some [0, 1]))),
      OpDel (KStr ''7''),
      OpSet (KStr ''k'') (Dict (Some ''def'') (Some (Some [1, 1])))]"

section \<open>Similarity search\<close>

lemma sample_codec_ok: "codec_ok sample_codec"
  by (simp add: codec_ok_def sample_codec_def)

lemma collect_matches_filter:
  "list_all (\<lambda>mt. \<not> isl (deserialize c (fst (snd mt)))) ms \<Longrightarrow>
   \<exists>its. collect_matches c t ms = Inr its \<and>
         map item_wire its = map (wire c) (filter (\<lambda>mt. t \<le> snd (snd mt)) ms)"
proof (induction ms)
  case Nil
  then show ?case by simp
next
  case (Cons mt ms)
  then obtain its where its: "collect_matches c t ms = Inr its"
     "map item_wire its = map (wire c) (filter (\<lambda>mt. t \<le> snd (snd mt)) ms)" by auto
  from Cons.prems obtain v where v: "deserialize c (fst (snd mt)) = Inr v"
    by (cases "deserialize c (fst (snd mt))") auto
  have "wire c mt = item_wire (fst mt, v, snd (snd mt))"
    by (simp add: wire_def item_wire_def v)
  then show ?case using its v by simp
qed

lemma search_result:
  assumes "query_ok m b q"
  shows "\<exists>cands. search metric b (storage_name m) q k = Inr cands \<and>
           set cands \<subseteq> score_row metric q ` set (rows_of b (storage_name m))"
proof (cases "b (storage_name m)")
  case None
  then show ?thesis by (simp add: search_def)
next
  case (Some col)
  have "set (take k (sort_key (\<lambda>mt. - snd (snd mt)) (map (score_row metric q) (rows col))))
          \<subseteq> score_row metric q ` set (rows col)"
    using set_take_subset [of k "sort_key (\<lambda>mt. - snd (snd mt)) (map (score_row metric q) (rows col))"]
    by simp
  then show ?thesis using Some assms by (simp add: search_def query_ok_def rows_of_def)
qed

lemma search_decodable:
  assumes "decodable c (rows_of b (storage_name m))"
    and "search metric b (storage_name m) q k = Inr cands"
    and "set cands \<subseteq> score_row metric q ` set (rows_of b (storage_name m))"
  shows "list_all (\<lambda>mt. \<not> isl (deserialize c (fst (snd mt)))) cands"
  unfolding decodable_def list_all_iff
proof
  fix mt assume "mt \<in> set cands"
  with assms(3) obtain r where r: "r \<in> set (rows_of b (storage_name m))" "mt = score_row metric q r"
    by blast
  with assms(1) show "\<not> isl (deserialize c (fst (snd mt)))"
    by (simp add: decodable_def list_all_iff score_row_def)
qed

lemma get_by_vector_filter:
  assumes "decodable c (rows_of b (storage_name m))" and "query_ok m b q"
  shows "\<exists>cands its.
           search metric b (storage_name m) q (case top_k of None \<Rightarrow> 10 | Some k \<Rightarrow> k) = Inr cands \<and>
           set cands \<subseteq> score_row metric q ` set (rows_of b (storage_name m)) \<and>
           get_by_vector c metric m b q top_k threshold = Inr its \<and>
           map item_wire its =
             map (wire c) (filter (\<lambda>mt. (case threshold of None \<Rightarrow> 0 | Some t \<Rightarrow> t) \<le> snd (snd mt)) cands)"
proof -
  obtain cands where cands:
    "search metric b (storage_name m) q (case top_k of None \<Rightarrow> 10 | Some k \<Rightarrow> k) = Inr cands"
    "set cands \<subseteq> score_row metric q ` set (rows_of b (storage_name m))"
    using search_result [OF assms(2)] by blast
  have "list_all (\<lambda>mt. \<not> isl (deserialize c (fst (snd mt)))) cands"
    using search_decodable [OF assms(1) cands] .
  then obtain its where its:
    "collect_matches c (case threshold of None \<Rightarrow> 0 | Some t \<Rightarrow> t) cands = Inr its"
    "map item_wire its =
       map (wire c) (filter (\<lambda>mt. (case threshold of None \<Rightarrow> 0 | Some t \<Rightarrow> t) \<le> snd (snd mt)) cands)"
    using collect_matches_filter by blast
  have "get_by_vector c metric m b q top_k threshold = Inr its"
    using cands(1) its(1) by (simp add: get_by_vector_def)
  then show ?thesis using cands its(2) by blast
qed

lemma item_wire_inj:
  "map item_wire xs = map item_wire ys \<Longrightarrow> xs = ys"
  by (rule map_injective) (auto simp: inj_on_def item_wire_def prod_eq_iff)

lemma search_two_rows:
  "search dot (coll_of two_rows) (storage_name store_ltm) [1, 0] 5
     = Inr [(''j'', ''fedP'', 1), (''k'', ''cbaP'', 1/2)]"
  by (simp add: search_def coll_of_def store_ltm_def two_rows_def score_row_def dot_def)

lemma decodable_two_rows:
  "decodable sample_codec (rows_of (coll_of two_rows) (storage_name store_ltm))"
  by (simp add: decodable_def rows_of_def coll_of_def store_ltm_def two_rows_def
      deserialize_def sample_codec_def)

lemma query_ok_coll_of: "query_ok store_ltm (coll_of rs) [1, 0]"
  by (simp add: query_ok_def coll_of_def store_ltm_def)

text \<open>
  C5, as stated: without a threshold no candidate is dropped. The default threshold
  is 0.0, so a candidate with a negative score is dropped: the engine returns the
  row \<open>k\<close> with score -1/2, and the result is empty.
\<close>

theorem get_by_vector_default_counterexample:
  "search dot (coll_of neg_rows) (storage_name store_ltm) [1, 0] 10 = Inr [(''k'', ''cbaP'', - 1/2)] \<and>
   get_by_vector sample_codec dot store_ltm (coll_of neg_rows) [1, 0] None None = Inr []"
  by (simp add: get_by_vector_def search_def coll_of_def store_ltm_def neg_rows_def
      score_row_def dot_def deserialize_def sample_codec_def)

text \<open>
  C5, amended: called without a threshold, \<open>get_by_vector\<close> filters with the default
  threshold 0.0. On a collection whose values decode and for a query vector of the
  collection's dimension, it returns exactly the candidates of the engine whose score
  is at least 0, in the engine's order, each as (key, decoded payload, score).
\<close>

theorem get_by_vector_default_threshold:
  assumes "decodable c (rows_of b (storage_name m))" and "query_ok m b q"
  shows "\<exists>cands its.
           search metric b (storage_name m) q (case top_k of None \<Rightarrow> 10 | Some k \<Rightarrow> k) = Inr cands \<and>
           get_by_vector c metric m b q top_k None = Inr its \<and>
           map item_wire its = map (wire c) (filter (\<lambda>mt. 0 \<le> snd (snd mt)) cands)"
  using get_by_vector_filter [OF assms, of metric top_k None] by auto

theorem get_by_vector_default_threshold_witness:
  "decodable sample_codec (rows_of (coll_of two_rows) (storage_name store_ltm)) \<and>
   query_ok store_ltm (coll_of two_rows) [1, 0] \<and>
   get_by_vector sample_codec dot store_ltm (coll_of two_rows) [1, 0] (Some 5) None
     = Inr [(''j'', ''def'', 1), (''k'', ''abc'', 1/2)]"
proof -
  have w: "map (wire sample_codec) [(''j'', ''fedP'', 1), (''k'', ''cbaP'', 1/2)]
             = map item_wire [(''j'', ''def'', 1), (''k'', ''abc'', 1/2)]"
    by (simp add: wire_def item_wire_def deserialize_def sample_codec_def)
  from get_by_vector_default_threshold [OF decodable_two_rows query_ok_coll_of,
      where metric = dot and top_k = "Some 5"]
  obtain its where
    "get_by_vector sample_codec dot store_ltm (coll_of two_rows) [1, 0] (Some 5) None = Inr its"
    "map item_wire its = map item_wire [(''j'', ''def'', 1), (''k'', ''abc'', 1/2)]"
    using search_two_rows w by auto
  then have "get_by_vector sample_codec dot store_ltm (coll_of two_rows) [1, 0] (Some 5) None
     = Inr [(''j'', ''def'', 1), (''k'', ''abc'', 1/2)]"
    using item_wire_inj by blast
  then show ?thesis using decodable_two_rows query_ok_coll_of by simp
qed




section \<open>Filters and the operations on keys\<close>

lemma strip_prefix_append: "strip_prefix p (p @ s) = Some s"
  by (induction p) auto

lemma lit_body_plain: "plain s \<Longrightarrow> lit_body (s @ dquote # r) = Some (s, r)"
  by (induction s) (auto simp: plain_def)

lemma parse_cmp_key_expr: "plain s \<Longrightarrow> parse_cmp (key_expr s) = Some (KeyEq s, [])"
proof -
  assume p: "plain s"
  have "key_expr s = (''key == '' @ [dquote]) @ (s @ dquote # [])"
    by (simp add: key_expr_def)
  then show ?thesis
    unfolding parse_cmp_def using strip_prefix_append lit_body_plain [OF p, of "[]"]
    by (simp del: append_assoc add: strip_prefix_append)
qed

lemma parse_filter_key_expr: "plain s \<Longrightarrow> parse_filter (key_expr s) = Some (KeyEq s)"
  by (simp add: parse_filter_def parse_or.simps [of "key_expr s"] parse_cmp_key_expr)
     (simp add: key_expr_def)

lemma parse_filter_nonempty: "parse_filter nonempty_expr = Some (KeyNe [])"
  by (simp add: parse_filter_def nonempty_expr_def parse_or.simps parse_cmp_def)

lemma parse_filter_injected:
  "parse_filter (key_expr injected_key) = Some (FOr (KeyEq ''a'') (KeyEq ''b''))"
  by (simp add: parse_filter_def key_expr_def injected_key_def parse_or.simps parse_cmp_def)

lemma parse_bad: "parse_filter (key_expr (''a'' @ [dquote] @ ''b'')) = None"
  by (simp add: parse_filter_def key_expr_def parse_or.simps parse_cmp_def)

lemma matches_KeyEq: "filter (matches (KeyEq s)) rs = filter (\<lambda>r. fst r = s) rs"
  by (induction rs) auto

lemma matches_KeyNe: "filter (matches (KeyNe s)) rs = filter (\<lambda>r. fst r \<noteq> s) rs"
  by (induction rs) auto

lemma query_key_expr:
  "plain s \<Longrightarrow> query b n (key_expr s) None = Inr (filter (\<lambda>r. fst r = s) (rows_of b n))"
  by (cases "b n") (simp_all add: query_def rows_of_def parse_filter_key_expr matches_KeyEq)

lemma query_nonempty:
  "query b n nonempty_expr None = Inr (filter (\<lambda>r. fst r \<noteq> []) (rows_of b n))"
  by (cases "b n") (simp_all add: query_def rows_of_def parse_filter_nonempty matches_KeyNe)

lemma getitem_plain:
  "plain (str_py key) \<Longrightarrow>
   getitem c m b key =
     (case filter (\<lambda>r. fst r = str_py key) (rows_of b (storage_name m)) of
        [] \<Rightarrow> Inl KeyError
      | r # _ \<Rightarrow> deserialize c (fst (snd r)))"
  by (simp add: getitem_def query_key_expr)

lemma contains_plain:
  "plain (str_py key) \<Longrightarrow>
   contains m b key = Inr (filter (\<lambda>r. fst r = str_py key) (rows_of b (storage_name m)) \<noteq> [])"
  by (simp add: contains_def query_key_expr)

lemma delete_rows_key_expr:
  "plain k \<Longrightarrow> b n = Some col \<Longrightarrow>
   delete_rows b n (key_expr k) = Inr (b(n \<mapsto> col\<lparr>rows := filter (\<lambda>r. fst r \<noteq> k) (rows col)\<rparr>))"
  by (simp add: delete_rows_def parse_filter_key_expr)

lemma delitem_plain:
  assumes "plain (str_py key)"
  shows "delitem m b key =
     (if filter (\<lambda>r. fst r = str_py key) (rows_of b (storage_name m)) = [] then (Inl KeyError, b)
      else (Inr (), b(storage_name m \<mapsto>
              (the (b (storage_name m)))\<lparr>rows := filter (\<lambda>r. fst r \<noteq> str_py key) (rows_of b (storage_name m))\<rparr>)))"
proof (cases "b (storage_name m)")
  case None
  then show ?thesis using assms by (simp add: delitem_def contains_plain rows_of_def)
next
  case (Some col)
  then show ?thesis using assms
    by (simp add: delitem_def contains_plain rows_of_def delete_rows_key_expr)
qed

lemma setitem_valid:
  assumes k: "plain (str_py key)" "length (str_py key) \<le> 256"
    and s: "serialize c v = Inr s" "length s \<le> 65535"
    and e: "length emb = dim m"
    and o: "owned m b"
  shows "\<exists>b'. setitem c m b key (Dict (Some v) (Some (Some emb))) = (Inr (), b') \<and>
               rows_of b' (storage_name m)
                 = filter (\<lambda>r. fst r \<noteq> str_py key) (rows_of b (storage_name m)) @ [(str_py key, s, emb)] \<and>
               owned m b' \<and> has_collection b' (storage_name m) \<and>
               (\<forall>n. n \<noteq> storage_name m \<longrightarrow> b' n = b n)"
proof (cases "b (storage_name m)")
  case None
  then show ?thesis using assms
    by (simp add: setitem_def create_collection_if_absent_def has_collection_def
        create_collection_def contains_plain rows_of_def insert_row_def owned_def)
next
  case (Some col)
  show ?thesis
  proof (cases "filter (\<lambda>r. fst r = str_py key) (rows col) = []")
    case True
    then have "filter (\<lambda>r. fst r \<noteq> str_py key) (rows col) = rows col"
      by (auto simp: filter_empty_conv filter_id_conv)
    then show ?thesis using Some True assms
      by (simp add: setitem_def create_collection_if_absent_def has_collection_def
          contains_plain rows_of_def insert_row_def owned_def)
  next
    case False
    then show ?thesis using Some assms
      by (simp add: setitem_def create_collection_if_absent_def has_collection_def
          contains_plain delitem_plain rows_of_def insert_row_def owned_def Let_def)
  qed
qed

lemma serialize_ok:
  "codec_ok c \<Longrightarrow> serialize c v = Inr s \<Longrightarrow> deserialize c s = Inr v"
  by (auto simp: codec_ok_def serialize_def deserialize_def split: option.splits)

lemma plain_k: "plain ''k''"
  by (simp add: plain_def)

lemma owned_empty: "owned m Map.empty"
  by (simp add: owned_def)

lemma owned_coll_of: "owned store_ltm (coll_of rs)"
  by (simp add: owned_def coll_of_def store_ltm_def)

lemma serialize_abc: "serialize sample_codec ''abc'' = Inr ''cbaP''"
  by (simp add: serialize_def sample_codec_def)

lemma key_expr_injected:
  "key_expr injected_key = key_expr ''a'' @ '' or '' @ key_expr ''b''"
  by (simp add: key_expr_def injected_key_def)

lemma getitem_injected:
  "getitem sample_codec store_ltm (coll_of rs) (KStr injected_key) =
     (case filter (\<lambda>r. fst r = ''a'' \<or> fst r = ''b'') rs of
        [] \<Rightarrow> Inl KeyError
      | r # _ \<Rightarrow> deserialize sample_codec (fst (snd r)))"
proof -
  have "filter (matches (FOr (KeyEq ''a'') (KeyEq ''b''))) rs = filter (\<lambda>r. fst r = ''a'' \<or> fst r = ''b'') rs"
    by (induction rs) auto
  then show ?thesis
  by (simp add: getitem_def query_def coll_of_def store_ltm_def parse_filter_injected)
qed

lemma setitem_then_getitem:
  assumes "codec_ok c"
    and "plain (str_py key)" and "length (str_py key) \<le> 256"
    and "serialize c payload = Inr s" and "length s \<le> 65535"
    and "length emb = dim m" and "owned m b"
    and "str_py key' = str_py key"
  shows "fst (setitem c m b key (Dict (Some payload) (Some (Some emb)))) = Inr () \<and>
         getitem c m (snd (setitem c m b key (Dict (Some payload) (Some (Some emb))))) key'
           = Inr payload"
proof -
  obtain b' where b':
    "setitem c m b key (Dict (Some payload) (Some (Some emb))) = (Inr (), b')"
    "rows_of b' (storage_name m)
       = filter (\<lambda>r. fst r \<noteq> str_py key) (rows_of b (storage_name m)) @ [(str_py key, s, emb)]"
    using setitem_valid [OF assms(2-7)] by blast
  have "filter (\<lambda>r. fst r = str_py key') (rows_of b' (storage_name m)) = [(str_py key, s, emb)]"
    by (simp add: b'(2) assms(8) filter_empty_conv)
  then have "getitem c m b' key' = Inr payload"
    using assms(1,2,4,8) by (simp add: getitem_plain serialize_ok)
  then show ?thesis using b'(1) by simp
qed

section \<open>Writing and reading a key\<close>

text \<open>
  C1: for every key, payload and embedding of valid shape, \<open>set\<close> and then \<open>get\<close>
  returns the payload. \<open>__setitem__\<close> and \<open>__getitem__\<close> look for the row of the key
  with the filter \<open>f'key == "{key_str}"'\<close>, into which the key is pasted unescaped.
  For the key \<open>a" or key == "b\<close> (15 characters) the filter is the text
  \<open>key == "a" or key == "b"\<close>: the write succeeds and stores a row under the key,
  and the read that follows looks for the keys \<open>a\<close> and \<open>b\<close> and ends with
  \<open>KeyError\<close>.
\<close>

theorem set_then_get_injected_key:
  "key_expr injected_key = key_expr ''a'' @ '' or '' @ key_expr ''b'' \<and>
   length injected_key \<le> 256 \<and>
   serialize sample_codec ''abc'' = Inr ''cbaP'' \<and>
   fst (setitem sample_codec store_ltm Map.empty (KStr injected_key)
          (Dict (Some ''abc'') (Some (Some [1, 0])))) = Inr () \<and>
   getitem sample_codec store_ltm
     (snd (setitem sample_codec store_ltm Map.empty (KStr injected_key)
             (Dict (Some ''abc'') (Some (Some [1, 0])))))
     (KStr injected_key) = Inl KeyError"
  by (rule conjI [OF key_expr_injected])
     (simp add: setitem_def getitem_def contains_def query_def insert_row_def
       create_collection_if_absent_def has_collection_def create_collection_def
       parse_filter_injected serialize_def sample_codec_def store_ltm_def Let_def
       injected_key_def [symmetric],
      simp add: injected_key_def)

text \<open>
  Where the key needs no escaping the round trip holds: for every key whose string form
  has no double quote and no backslash and at most 256 characters, every payload
  that encodes to at most 65535 characters and every embedding of the store's
  dimension, on a backend where the collection is absent or has the schema the store
  declares, \<open>set(key, payload, embedding)\<close> succeeds and \<open>get(key)\<close> then returns the
  payload, provided decoding undoes encoding.
\<close>

theorem set_then_get_roundtrip:
  assumes "codec_ok c"
    and "plain (str_py key)" and "length (str_py key) \<le> 256"
    and "serialize c payload = Inr s" and "length s \<le> 65535"
    and "length emb = dim m" and "owned m b"
  shows "fst (setitem c m b key (Dict (Some payload) (Some (Some emb)))) = Inr () \<and>
         getitem c m (snd (setitem c m b key (Dict (Some payload) (Some (Some emb))))) key
           = Inr payload"
  using setitem_then_getitem [OF assms, of key] by simp

theorem set_then_get_roundtrip_witness:
  "codec_ok sample_codec \<and> plain (str_py (KStr ''k'')) \<and> length (str_py (KStr ''k'')) \<le> 256 \<and>
   serialize sample_codec ''abc'' = Inr ''cbaP'' \<and> length ''cbaP'' \<le> 65535 \<and>
   length [1, 0 :: real] = dim store_ltm \<and> owned store_ltm Map.empty \<and>
   getitem sample_codec store_ltm
     (snd (setitem sample_codec store_ltm Map.empty (KStr ''k'') (Dict (Some ''abc'') (Some (Some [1, 0])))))
     (KStr ''k'') = Inr ''abc''"
proof -
  have h: "plain (str_py (KStr ''k''))" "length (str_py (KStr ''k'')) \<le> 256"
    "length ''cbaP'' \<le> 65535" "length [1, 0 :: real] = dim store_ltm"
    by (simp_all add: plain_def store_ltm_def)
  from set_then_get_roundtrip [OF sample_codec_ok h(1,2) serialize_abc h(3,4) owned_empty]
  show ?thesis using sample_codec_ok h serialize_abc owned_empty by blast
qed

text \<open>
  C7: for every key without a record, \<open>get(key)\<close> fails with \<open>KeyError\<close>, and
  \<open>get(key, default)\<close> returns the default. \<open>__getitem__\<close> looks for the row of the
  key with the filter \<open>f'key == "{key_str}"'\<close>, into which the key is pasted unescaped.
  No row has the key \<open>a" or key == "b\<close>, but the filter built from it is the text
  \<open>key == "a" or key == "b"\<close> and selects the rows \<open>a\<close> and \<open>b\<close>: \<open>get\<close> returns
  the payload of \<open>a\<close>, and with a default it returns that payload, not the default.
\<close>

theorem get_absent_injected_key:
  "key_expr injected_key = key_expr ''a'' @ '' or '' @ key_expr ''b'' \<and>
   injected_key \<notin> fst ` set (rows_of (coll_of ab_rows) (storage_name store_ltm)) \<and>
   getitem sample_codec store_ltm (coll_of ab_rows) (KStr injected_key) = Inr ''abc'' \<and>
   get sample_codec store_ltm (coll_of ab_rows) (KStr injected_key) (Some ''zzz'') = Inr (Some ''abc'')"
  by (rule conjI [OF key_expr_injected])
     (simp add: get_def getitem_injected,
      simp add: ab_rows_def rows_of_def coll_of_def store_ltm_def injected_key_def
       deserialize_def sample_codec_def)

text \<open>
  Where the key needs no escaping the lookup is exact: for every key whose string form
  has no double quote and no backslash and that has no row in the collection (the
  collection may be absent), \<open>get(key)\<close> fails with \<open>KeyError\<close>, and
  \<open>get(key, default)\<close> returns the default.
\<close>

theorem get_absent_key:
  assumes "plain (str_py key)"
    and "str_py key \<notin> fst ` set (rows_of b (storage_name m))"
  shows "getitem c m b key = Inl KeyError \<and> get c m b key dflt = Inr dflt"
proof -
  have "filter (\<lambda>r. fst r = str_py key) (rows_of b (storage_name m)) = []"
    using assms(2) by (force simp: filter_empty_conv)
  then have "getitem c m b key = Inl KeyError"
    using assms(1) by (simp add: getitem_plain)
  then show ?thesis by (simp add: get_def)
qed

theorem get_absent_key_witness:
  "plain (str_py (KInt 7)) \<and>
   str_py (KInt 7) \<notin> fst ` set (rows_of (coll_of ab_rows) (storage_name store_ltm)) \<and>
   getitem sample_codec store_ltm (coll_of ab_rows) (KInt 7) = Inl KeyError \<and>
   get sample_codec store_ltm (coll_of ab_rows) (KInt 7) (Some ''zzz'') = Inr (Some ''zzz'')"
proof -
  have h: "plain (str_py (KInt 7))"
    "str_py (KInt 7) \<notin> fst ` set (rows_of (coll_of ab_rows) (storage_name store_ltm))"
    by (simp_all add: str_nat.simps plain_def ab_rows_def rows_of_def coll_of_def store_ltm_def)
  from get_absent_key [OF h, of sample_codec "Some ''zzz''"] show ?thesis using h by blast
qed

section \<open>Deleting a key\<close>

text \<open>
  C8: for every absent key, \<open>delete(key)\<close> fails with \<open>KeyError\<close> after its
  existence query, so that delete is not idempotent. \<open>__delitem__\<close> and
  \<open>__contains__\<close> look for the row of the key with the filter
  \<open>f'key == "{key_str}"'\<close>, into which the key is pasted unescaped. No row has the key
  \<open>a" or key == "b\<close>, but the filter built from it is the text
  \<open>key == "a" or key == "b"\<close>: the existence query finds the rows \<open>a\<close> and \<open>b\<close>,
  and \<open>delete\<close> succeeds and removes both.
\<close>

theorem delete_absent_injected_key:
  "key_expr injected_key = key_expr ''a'' @ '' or '' @ key_expr ''b'' \<and>
   injected_key \<notin> fst ` set (rows_of (coll_of ab_rows) (storage_name store_ltm)) \<and>
   delitem store_ltm (coll_of ab_rows) (KStr injected_key) = (Inr (), coll_of [])"
  by (rule conjI [OF key_expr_injected])
     (simp add: delitem_def contains_def query_def delete_rows_def parse_filter_injected
       coll_of_def store_ltm_def ab_rows_def rows_of_def injected_key_def [symmetric],
      simp add: injected_key_def)

text \<open>
  Where the key needs no escaping the deletion is exact: for every key whose string
  form has no double quote and no backslash, if the key has no row, \<open>delete(key)\<close>
  fails with \<open>KeyError\<close> and changes nothing; after \<open>delete(key)\<close>, \<open>get(key)\<close>
  fails with \<open>KeyError\<close>; and a second \<open>delete(key)\<close> fails with \<open>KeyError\<close>
  (delete is not idempotent).
\<close>

theorem delete_absent_key:
  assumes "plain (str_py key)"
  shows "(str_py key \<notin> fst ` set (rows_of b (storage_name m))
            \<longrightarrow> delitem m b key = (Inl KeyError, b)) \<and>
         getitem c m (snd (delitem m b key)) key = Inl KeyError \<and>
         fst (delitem m (snd (delitem m b key)) key) = Inl KeyError"
proof -
  let ?n = "storage_name m"
  let ?b' = "snd (delitem m b key)"
  have gone: "filter (\<lambda>r. fst r = str_py key) (rows_of ?b' ?n) = []"
    by (simp add: delitem_plain [OF assms] rows_of_def filter_empty_conv)
  have 1: "str_py key \<notin> fst ` set (rows_of b ?n) \<longrightarrow> delitem m b key = (Inl KeyError, b)"
  proof
    assume "str_py key \<notin> fst ` set (rows_of b ?n)"
    then have "filter (\<lambda>r. fst r = str_py key) (rows_of b ?n) = []"
      by (force simp: filter_empty_conv)
    then show "delitem m b key = (Inl KeyError, b)"
      by (simp add: delitem_plain [OF assms])
  qed
  have 2: "getitem c m ?b' key = Inl KeyError"
    using gone by (simp add: getitem_plain [OF assms])
  have 3: "fst (delitem m ?b' key) = Inl KeyError"
    using gone by (simp add: delitem_plain [OF assms, of m ?b'])
  show ?thesis using 1 2 3 by blast
qed

theorem delete_absent_key_witness:
  "plain (str_py (KStr ''k'')) \<and>
   str_py (KStr ''k'') \<notin> fst ` set (rows_of (coll_of ab_rows) (storage_name store_ltm)) \<and>
   delitem store_ltm (coll_of ab_rows) (KStr ''k'') = (Inl KeyError, coll_of ab_rows) \<and>
   plain (str_py (KStr ''a'')) \<and>
   fst (delitem store_ltm (coll_of ab_rows) (KStr ''a'')) = Inr () \<and>
   getitem sample_codec store_ltm (snd (delitem store_ltm (coll_of ab_rows) (KStr ''a''))) (KStr ''a'')
     = Inl KeyError \<and>
   fst (delitem store_ltm (snd (delitem store_ltm (coll_of ab_rows) (KStr ''a''))) (KStr ''a''))
     = Inl KeyError"
proof -
  have h: "plain (str_py (KStr ''k''))" "plain (str_py (KStr ''a''))"
    "str_py (KStr ''k'') \<notin> fst ` set (rows_of (coll_of ab_rows) (storage_name store_ltm))"
    by (simp_all add: plain_def ab_rows_def rows_of_def coll_of_def store_ltm_def)
  have d: "fst (delitem store_ltm (coll_of ab_rows) (KStr ''a'')) = Inr ()"
    by (simp add: delitem_plain [OF h(2)] ab_rows_def rows_of_def coll_of_def store_ltm_def)
  from delete_absent_key [OF h(1), of "coll_of ab_rows" store_ltm sample_codec]
    delete_absent_key [OF h(2), of "coll_of ab_rows" store_ltm sample_codec]
  show ?thesis using h d by blast
qed

section \<open>Keys and their string form\<close>

text \<open>
  C10: every operation that takes a key converts it to its string form first, so that
  for every key \<open>k\<close> and value \<open>v\<close>, \<open>set(k, v)\<close> followed by \<open>get(str(k))\<close> returns
  the payload. The string form is pasted unescaped into the filter
  \<open>f'key == "{key_str}"'\<close>. With the key \<open>a" or key == "b\<close> the filter is the text
  \<open>key == "a" or key == "b"\<close>: the write succeeds (and removes the rows \<open>a\<close> and
  \<open>b\<close>), and the read of the key's string form ends with \<open>KeyError\<close>.
\<close>

theorem key_alias_injected_key:
  "key_expr (str_py (KStr injected_key)) = key_expr ''a'' @ '' or '' @ key_expr ''b'' \<and>
   fst (setitem sample_codec store_ltm (coll_of ab_rows) (KStr injected_key)
          (Dict (Some ''xyz'') (Some (Some [1, 0])))) = Inr () \<and>
   getitem sample_codec store_ltm
     (snd (setitem sample_codec store_ltm (coll_of ab_rows) (KStr injected_key)
             (Dict (Some ''xyz'') (Some (Some [1, 0])))))
     (KStr (str_py (KStr injected_key))) = Inl KeyError"
  by (simp add: key_expr_injected)
     (simp add: setitem_def getitem_def contains_def delitem_def delete_rows_def query_def
       insert_row_def create_collection_if_absent_def has_collection_def
       parse_filter_injected serialize_def sample_codec_def store_ltm_def coll_of_def
       ab_rows_def Let_def injected_key_def [symmetric],
      simp add: injected_key_def)

text \<open>
  \<open>get\<close>, \<open>contains\<close>, \<open>delete\<close>, \<open>set\<close> and \<open>pop\<close> depend on a key only through its
  string form, so two keys with equal string forms give the same results and the same
  backend. When the string form has no double quote and no backslash and at most 256
  characters, and the value is accepted, a read through any key of that string form
  (\<open>str(k)\<close> is one) after \<open>set(k, v)\<close> returns the payload.
\<close>

theorem key_alias:
  assumes "str_py k' = str_py k"
  shows "getitem c m b k' = getitem c m b k \<and>
         get c m b k' dflt = get c m b k dflt \<and>
         contains m b k' = contains m b k \<and>
         delitem m b k' = delitem m b k \<and>
         setitem c m b k' v = setitem c m b k v \<and>
         pop c m b k' dflt = pop c m b k dflt \<and>
         (codec_ok c \<and> plain (str_py k) \<and> length (str_py k) \<le> 256 \<and>
          serialize c payload = Inr s \<and> length s \<le> 65535 \<and> length emb = dim m \<and> owned m b
            \<longrightarrow> getitem c m (snd (setitem c m b k (Dict (Some payload) (Some (Some emb))))) k'
                  = Inr payload)"
proof -
  have g: "getitem c m b k' = getitem c m b k"
    by (simp add: getitem_def assms)
  have d: "delitem m b k' = delitem m b k"
    by (simp add: delitem_def assms)
  have "get c m b k' dflt = get c m b k dflt"
    by (simp add: get_def g)
  moreover have "contains m b k' = contains m b k"
    by (simp add: contains_def assms)
  moreover have "setitem c m b k' v = setitem c m b k v"
    by (simp add: setitem_def assms)
  moreover have "pop c m b k' dflt = pop c m b k dflt"
    unfolding pop_def g d by (rule refl)
  moreover have "codec_ok c \<and> plain (str_py k) \<and> length (str_py k) \<le> 256 \<and>
          serialize c payload = Inr s \<and> length s \<le> 65535 \<and> length emb = dim m \<and> owned m b
            \<longrightarrow> getitem c m (snd (setitem c m b k (Dict (Some payload) (Some (Some emb))))) k'
                  = Inr payload"
  proof
    assume h: "codec_ok c \<and> plain (str_py k) \<and> length (str_py k) \<le> 256 \<and>
          serialize c payload = Inr s \<and> length s \<le> 65535 \<and> length emb = dim m \<and> owned m b"
    then show "getitem c m (snd (setitem c m b k (Dict (Some payload) (Some (Some emb))))) k'
                  = Inr payload"
      using setitem_then_getitem [of c k payload s emb m b k'] assms by simp
  qed
  ultimately show ?thesis using g d by blast
qed

theorem key_alias_witness:
  "str_py (KStr (str_py (KInt (- 12)))) = str_py (KInt (- 12)) \<and>
   str_py (KInt (- 12)) = ''-12'' \<and>
   contains store_ltm (coll_of ab_rows) (KStr ''-12'') = contains store_ltm (coll_of ab_rows) (KInt (- 12)) \<and>
   getitem sample_codec store_ltm
     (snd (setitem sample_codec store_ltm (coll_of ab_rows) (KInt (- 12))
             (Dict (Some ''abc'') (Some (Some [1, 0])))))
     (KStr ''-12'') = Inr ''abc''"
proof -
  have s: "str_py (KInt (- 12)) = ''-12''"
    by (simp add: str_nat.simps)
  have a: "str_py (KStr ''-12'') = str_py (KInt (- 12))"
    using s by simp
  have h: "codec_ok sample_codec \<and> plain (str_py (KInt (- 12))) \<and> length (str_py (KInt (- 12))) \<le> 256 \<and>
      serialize sample_codec ''abc'' = Inr ''cbaP'' \<and> length ''cbaP'' \<le> 65535 \<and>
      length [1, 0 :: real] = dim store_ltm \<and> owned store_ltm (coll_of ab_rows)"
    using sample_codec_ok owned_coll_of serialize_abc
    by (simp add: str_nat.simps plain_def store_ltm_def)
  from key_alias [OF a, of sample_codec store_ltm "coll_of ab_rows" _ _ "''abc''" "''cbaP''" "[1, 0]"] h
  show ?thesis using s by simp
qed

section \<open>The outcomes of a write\<close>

lemma query_error: "query b n e lmt = Inl err \<Longrightarrow> err = MilvusException"
  by (auto simp: query_def split: option.splits)

lemma contains_error: "contains m b key = Inl err \<Longrightarrow> err = MilvusException"
  by (auto simp: contains_def Let_def split: sum.splits dest: query_error)

lemma serialize_error: "serialize c v = Inl err \<Longrightarrow> err = PicklingError"
  by (auto simp: serialize_def split: option.splits)

lemma setitem_outcome:
  fixes c :: "'v codec" and m :: ltm and b :: backend and key :: pykey and val :: "'v pyvalue"
  defines "b1 \<equiv> create_collection_if_absent m b"
    and "k \<equiv> str_py key"
    and "r \<equiv> setitem c m b key val"
  obtains
    (shape) "r = (Inl ValueError, b1)" "\<forall>v emb. val \<noteq> Dict (Some v) (Some (Some emb))"
  | (pickle) "r = (Inl PicklingError, b1)"
  | (query_failed) "r = (Inl MilvusException, b1)"
  | (delete_failed) e b2 where "contains m b1 (KStr k) = Inr True"
      "delitem m b1 (KStr k) = (Inl e, b2)" "r = (Inl e, b2)"
  | (insert_failed) v s emb b2 e where "val = Dict (Some v) (Some (Some emb))"
      "serialize c v = Inr s"
      "(contains m b1 (KStr k) = Inr False \<and> b2 = b1) \<or>
       (contains m b1 (KStr k) = Inr True \<and> delitem m b1 (KStr k) = (Inr (), b2))"
      "insert_row b2 (storage_name m) (k, s, emb) = Inl e" "r = (Inl e, b2)"
  | (stored) v s emb b2 b3 where "val = Dict (Some v) (Some (Some emb))"
      "serialize c v = Inr s"
      "(contains m b1 (KStr k) = Inr False \<and> b2 = b1) \<or>
       (contains m b1 (KStr k) = Inr True \<and> delitem m b1 (KStr k) = (Inr (), b2))"
      "insert_row b2 (storage_name m) (k, s, emb) = Inr b3" "r = (Inr (), b3)"
proof (cases val)
  case NotDict
  then have "r = (Inl ValueError, b1)" by (simp add: r_def b1_def setitem_def)
  then show ?thesis using NotDict by (intro shape) simp_all
next
  case (Dict ov oe)
  show ?thesis
  proof (cases ov)
    case None
    then have "r = (Inl ValueError, b1)" using Dict by (simp add: r_def b1_def setitem_def)
    then show ?thesis using Dict None by (intro shape) simp_all
  next
    case (Some v)
    note v = this
    show ?thesis
    proof (cases oe)
      case None
      then have "r = (Inl ValueError, b1)" using Dict v by (simp add: r_def b1_def setitem_def)
      then show ?thesis using Dict None by (intro shape) simp_all
    next
      case (Some embedding)
      note oe = this
      show ?thesis
      proof (cases "serialize c v")
        case (Inl err)
        then have "err = PicklingError" by (rule serialize_error)
        then have "r = (Inl PicklingError, b1)"
          using Dict v oe Inl by (simp add: r_def b1_def setitem_def)
        then show ?thesis by (rule pickle)
      next
        case (Inr s)
        note s = this
        show ?thesis
        proof (cases embedding)
          case None
          then have "r = (Inl ValueError, b1)"
            using Dict v oe s by (simp add: r_def b1_def setitem_def)
          then show ?thesis using Dict oe None by (intro shape) simp_all
        next
          case (Some emb)
          note emb = this
          have val: "val = Dict (Some v) (Some (Some emb))"
            using Dict v oe emb by simp
          show ?thesis
          proof (cases "contains m b1 (KStr k)")
            case (Inl err)
            then have "err = MilvusException" by (rule contains_error)
            then have "r = (Inl MilvusException, b1)" using val s Inl
              by (simp add: r_def setitem_def b1_def [symmetric] k_def [symmetric])
            then show ?thesis by (rule query_failed)
          next
            case (Inr present)
            note present = this
            show ?thesis
            proof (cases present)
              case False
              show ?thesis
              proof (cases "insert_row b1 (storage_name m) (k, s, emb)")
                case (Inl e)
                then have "r = (Inl e, b1)" using val s present False
                  by (simp add: r_def setitem_def b1_def [symmetric] k_def [symmetric])
                then show ?thesis using val s present False Inl
                  by (intro insert_failed [of v emb s b1 e]) simp_all
              next
                case (Inr b3)
                then have "r = (Inr (), b3)" using val s present False
                  by (simp add: r_def setitem_def b1_def [symmetric] k_def [symmetric])
                then show ?thesis using val s present False Inr
                  by (intro stored [of v emb s b1 b3]) simp_all
              qed
            next
              case True
              obtain r2 b2 where d: "delitem m b1 (KStr k) = (r2, b2)"
                by (cases "delitem m b1 (KStr k)")
              show ?thesis
              proof (cases r2)
                case (Inl e)
                then have "r = (Inl e, b2)" using val s present True d
                  by (simp add: r_def setitem_def b1_def [symmetric] k_def [symmetric])
                then show ?thesis using d Inl present True by (intro delete_failed [of e b2]) simp_all
              next
                case (Inr u)
                then have d': "delitem m b1 (KStr k) = (Inr (), b2)" using d by simp
                show ?thesis
                proof (cases "insert_row b2 (storage_name m) (k, s, emb)")
                  case (Inl e)
                  then have "r = (Inl e, b2)" using val s present True d'
                    by (simp add: r_def setitem_def b1_def [symmetric] k_def [symmetric])
                  then show ?thesis using val s d' present True Inl
                    by (intro insert_failed [of v emb s b2 e]) simp_all
                next
                  case (Inr b3)
                  then have "r = (Inr (), b3)" using val s present True d'
                    by (simp add: r_def setitem_def b1_def [symmetric] k_def [symmetric])
                  then show ?thesis using val s d' present True Inr
                    by (intro stored [of v emb s b2 b3]) simp_all
                qed
              qed
            qed
          qed
        qed
      qed
    qed
  qed
qed

lemma delete_rows_result:
  assumes "delete_rows b n e = Inr b'"
  shows "schema_of b' = schema_of b \<and> set (rows_of b' n') \<subseteq> set (rows_of b n')"
proof -
  from assms obtain col f where cf: "b n = Some col" "parse_filter e = Some f"
      "b' = b(n \<mapsto> col\<lparr>rows := filter (\<lambda>r. \<not> matches f r) (rows col)\<rparr>)"
    by (auto simp: delete_rows_def split: option.splits)
  have "schema_of b' n'' = schema_of b n''" for n''
    using cf by (simp add: schema_of_def)
  moreover have "set (rows_of b' n') \<subseteq> set (rows_of b n')"
    using cf by (auto simp: rows_of_def)
  ultimately show ?thesis by auto
qed

lemma delete_rows_error: "delete_rows b n e = Inl err \<Longrightarrow> err = MilvusException"
  by (auto simp: delete_rows_def split: option.splits)

lemma insert_row_error: "insert_row b n r = Inl err \<Longrightarrow> err = MilvusException"
  by (auto simp: insert_row_def split: option.splits if_splits)

lemma delitem_outcome:
  obtains (failed) e where "delitem m b key = (Inl e, b)" "e = KeyError \<or> e = MilvusException"
  | (deleted) b' where "delitem m b key = (Inr (), b')"
      "delete_rows b (storage_name m) (key_expr (str_py key)) = Inr b'"
proof (cases "contains m b (KStr (str_py key))")
  case (Inl err)
  then have "err = MilvusException" by (rule contains_error)
  then show ?thesis using Inl by (intro failed [of MilvusException]) (simp_all add: delitem_def)
next
  case (Inr present)
  show ?thesis
  proof (cases present)
    case False
    then show ?thesis using Inr by (intro failed [of KeyError]) (simp_all add: delitem_def)
  next
    case True
    show ?thesis
    proof (cases "delete_rows b (storage_name m) (key_expr (str_py key))")
      case (Inl err)
      then have "err = MilvusException" by (rule delete_rows_error)
      then show ?thesis using Inl Inr True
        by (intro failed [of MilvusException]) (simp_all add: delitem_def)
    next
      case (Inr b')
      then show ?thesis using \<open>contains m b (KStr (str_py key)) = Inr present\<close> True
        by (intro deleted [of b']) (simp_all add: delitem_def)
    qed
  qed
qed

lemma delitem_result:
  "schema_of (snd (delitem m b key)) = schema_of b \<and>
   set (rows_of (snd (delitem m b key)) n') \<subseteq> set (rows_of b n')"
proof (cases rule: delitem_outcome [of m b key])
  case (failed e)
  then show ?thesis by simp
next
  case (deleted b')
  then show ?thesis using delete_rows_result [of b "storage_name m" _ b' n'] by simp
qed

lemma has_collection_schema: "has_collection b n \<longleftrightarrow> schema_of b n \<noteq> None"
  by (simp add: has_collection_def schema_of_def)

lemma schema_of_create:
  "schema_of (create_collection_if_absent m b) =
     (if schema_of b (storage_name m) = None
      then (schema_of b)(storage_name m \<mapsto> (256, 65535, dim m))
      else schema_of b)"
  by (rule ext)
     (simp add: create_collection_if_absent_def create_collection_def has_collection_def
       schema_of_def)

lemma rows_of_create: "rows_of (create_collection_if_absent m b) n' = rows_of b n'"
  by (simp add: create_collection_if_absent_def create_collection_def has_collection_def
      rows_of_def)

lemma schema_of_create_cong:
  "schema_of b' = schema_of (create_collection_if_absent m b) \<Longrightarrow>
   schema_of (create_collection_if_absent m b') = schema_of (create_collection_if_absent m b)"
  by (simp add: schema_of_create)

lemma insert_row_result:
  assumes "insert_row b n r = Inr b'"
  shows "schema_of b' = schema_of b \<and> rows_of b' n = rows_of b n @ [r] \<and>
         (\<exists>kmax vmax. schema_of b n = Some (kmax, vmax, length (snd (snd r))))"
proof -
  from assms obtain col where col: "b n = Some col" "length (snd (snd r)) = coll_dim col"
      "b' = b(n \<mapsto> col\<lparr>rows := rows col @ [r]\<rparr>)"
    by (auto simp: insert_row_def split: option.splits if_splits)
  have "schema_of b' n'' = schema_of b n''" for n''
    using col by (simp add: schema_of_def)
  then have "schema_of b' = schema_of b" by auto
  then show ?thesis using col by (simp add: rows_of_def schema_of_def)
qed

lemma schema_of_setitem:
  "schema_of (snd (setitem c m b key val)) = schema_of (create_collection_if_absent m b)"
proof (cases rule: setitem_outcome [of c m b key val])
  case shape
  then show ?thesis by simp
next
  case pickle
  then show ?thesis by simp
next
  case query_failed
  then show ?thesis by simp
next
  case (delete_failed e b2)
  then show ?thesis
    using delitem_result [of m "create_collection_if_absent m b" "KStr (str_py key)"] by simp
next
  case (insert_failed v s emb b2 e)
  then show ?thesis
    using delitem_result [of m "create_collection_if_absent m b" "KStr (str_py key)"] by auto
next
  case (stored v s emb b2 b3)
  then have "schema_of b2 = schema_of (create_collection_if_absent m b)"
    using delitem_result [of m "create_collection_if_absent m b" "KStr (str_py key)"] by auto
  then show ?thesis using stored insert_row_result [of b2 "storage_name m" _ b3] by simp
qed

lemma schema_of_clear: "schema_of (snd (clear m b)) = schema_of b"
  by (cases "delete_rows b (storage_name m) nonempty_expr")
     (simp_all add: clear_def delete_rows_result)

lemma pop_backend:
  "snd (pop c m b key dflt) = b \<or> snd (pop c m b key dflt) = snd (delitem m b key)"
proof (cases "getitem c m b key")
  case (Inl e)
  then show ?thesis by (cases e) (simp_all add: pop_def pop_default_def split: option.splits)
next
  case (Inr v)
  show ?thesis
  proof (cases rule: delitem_outcome [of m b key])
    case (failed e)
    then show ?thesis using Inr
      by (cases e) (simp_all add: pop_def pop_default_def split: option.splits)
  next
    case (deleted b')
    then show ?thesis using Inr by (simp add: pop_def)
  qed
qed

lemma schema_of_pop: "schema_of (snd (pop c m b key dflt)) = schema_of b"
  using pop_backend [of c m b key dflt] delitem_result [of m b key] by auto

lemma schema_of_update:
  "schema_of (snd (update c m b other)) =
     (if other = [] then schema_of b else schema_of (create_collection_if_absent m b))"
proof (induction other arbitrary: b)
  case Nil
  then show ?case by simp
next
  case (Cons kv other)
  obtain r b' where s: "setitem c m b (fst kv) (snd kv) = (r, b')"
    by (cases "setitem c m b (fst kv) (snd kv)")
  then have b': "schema_of b' = schema_of (create_collection_if_absent m b)"
    using schema_of_setitem [of c m b "fst kv" "snd kv"] by simp
  show ?case
  proof (cases r)
    case (Inl e)
    then show ?thesis using s b' by simp
  next
    case (Inr u)
    then have "snd (update c m b (kv # other)) = snd (update c m b' other)"
      using s by simp
    then show ?thesis using Cons.IH [of b'] b' schema_of_create_cong [OF b'] by simp
  qed
qed

lemma schema_of_call:
  "schema_of (call c m op b) =
     (if is_set op then schema_of (create_collection_if_absent m b) else schema_of b)"
  by (cases op)
     (simp_all add: schema_of_setitem schema_of_clear schema_of_pop schema_of_update
       delitem_result)

section \<open>The creation of the collection\<close>

text \<open>
  C4, as stated: a \<open>set\<close> call that is rejected leaves the existence of the
  collection unchanged. \<open>__setitem__\<close> calls \<open>_create_collection\<close> before it looks
  at its arguments: on a backend without the collection, a call with a value that is
  not a dictionary, and one with the embedding \<open>None\<close>, both end with \<open>ValueError\<close>,
  and the collection exists afterwards.
\<close>

theorem collection_created_by_set_counterexample:
  "\<not> has_collection Map.empty (storage_name store_ltm) \<and>
   fst (setitem sample_codec store_ltm Map.empty (KStr ''k'') NotDict) = Inl ValueError \<and>
   fst (setitem sample_codec store_ltm Map.empty (KStr ''k'') (Dict (Some ''abc'') (Some None)))
     = Inl ValueError \<and>
   has_collection (snd (setitem sample_codec store_ltm Map.empty (KStr ''k'') NotDict))
     (storage_name store_ltm) \<and>
   has_collection
     (snd (setitem sample_codec store_ltm Map.empty (KStr ''k'') (Dict (Some ''abc'') (Some None))))
     (storage_name store_ltm)"
  by (simp add: setitem_def create_collection_if_absent_def create_collection_def
      has_collection_def serialize_def sample_codec_def)

text \<open>
  C4, amended: the collection is created at the start of every \<open>set\<close> call (and of
  every \<open>update\<close> with at least one pair), before the arguments are validated, whether
  the call is then accepted or rejected. After any call the collection exists exactly
  when it existed before or the call was such a write: no reading method, and neither
  \<open>delete\<close>, \<open>clear\<close> nor \<open>pop\<close>, creates or drops it.
\<close>

theorem collection_created_by_set:
  "has_collection (call c m op b) (storage_name m) \<longleftrightarrow>
     has_collection b (storage_name m) \<or> is_set op"
  by (simp add: has_collection_schema schema_of_call schema_of_create)

theorem collection_created_by_set_witness:
  "has_collection (call sample_codec store_ltm (OpSet (KStr ''k'') NotDict) Map.empty) ''default'' \<and>
   \<not> has_collection (call sample_codec store_ltm (OpGet (KStr ''k'')) Map.empty) ''default'' \<and>
   \<not> has_collection (call sample_codec store_ltm (OpSearch [1, 0] None None) Map.empty) ''default'' \<and>
   \<not> has_collection (call sample_codec store_ltm OpClear Map.empty) ''default''"
  using collection_created_by_set [of sample_codec store_ltm "OpSet (KStr ''k'') NotDict" Map.empty]
    collection_created_by_set [of sample_codec store_ltm "OpGet (KStr ''k'')" Map.empty]
    collection_created_by_set [of sample_codec store_ltm "OpSearch [1, 0] None None" Map.empty]
    collection_created_by_set [of sample_codec store_ltm OpClear Map.empty]
  by (simp add: has_collection_def store_ltm_def)

section \<open>Values that are not accepted\<close>

lemma owned_schema:
  "owned m b \<longleftrightarrow> schema_of b (storage_name m) = None \<or>
     schema_of b (storage_name m) = Some (256, 65535, dim m)"
  by (auto simp: owned_def schema_of_def split: option.splits)

lemma delitem_present:
  assumes "contains m b (KStr (str_py key)) = Inr True" and "delitem m b key = (Inl e, b2)"
  shows "e = MilvusException"
  using assms
  by (cases "delete_rows b (storage_name m) (key_expr (str_py key))")
     (auto simp: delitem_def dest: delete_rows_error)

lemma setitem_wrong_length:
  assumes "owned m b" and "length emb \<noteq> dim m"
  shows "(fst (setitem c m b key (Dict (Some v) (Some (Some emb)))) = Inl PicklingError \<or>
          fst (setitem c m b key (Dict (Some v) (Some (Some emb)))) = Inl MilvusException) \<and>
         set (rows_of (snd (setitem c m b key (Dict (Some v) (Some (Some emb))))) (storage_name m))
           \<subseteq> set (rows_of b (storage_name m))"
proof -
  let ?b1 = "create_collection_if_absent m b"
  have sch: "schema_of ?b1 (storage_name m) = Some (256, 65535, dim m)"
    using assms(1) by (auto simp: owned_schema schema_of_create)
  have del: "schema_of (snd (delitem m ?b1 (KStr (str_py key)))) = schema_of ?b1"
    "set (rows_of (snd (delitem m ?b1 (KStr (str_py key)))) (storage_name m))
       \<subseteq> set (rows_of b (storage_name m))"
    using delitem_result [of m ?b1 "KStr (str_py key)" "storage_name m"]
    by (simp_all add: rows_of_create)
  show ?thesis
  proof (cases rule: setitem_outcome [of c m b key "Dict (Some v) (Some (Some emb))"])
    case shape
    then show ?thesis by simp
  next
    case pickle
    then show ?thesis by (simp add: rows_of_create)
  next
    case query_failed
    then show ?thesis by (simp add: rows_of_create)
  next
    case (delete_failed e b2)
    then have "e = MilvusException"
      using delitem_present [of m ?b1 "KStr (str_py key)" e b2] by simp
    then show ?thesis using delete_failed del(2) by simp
  next
    case (insert_failed v' s emb' b2 e)
    then have "e = MilvusException" by (auto dest: insert_row_error)
    moreover have "set (rows_of b2 (storage_name m)) \<subseteq> set (rows_of b (storage_name m))"
      using insert_failed(3) del(2) by (auto simp: rows_of_create)
    ultimately show ?thesis using insert_failed(5) by simp
  next
    case (stored v' s emb' b2 b3)
    have "schema_of b2 = schema_of ?b1"
      using stored(3) del(1) by auto
    moreover have "\<exists>kmax vmax. schema_of b2 (storage_name m) = Some (kmax, vmax, length emb')"
      using insert_row_result [OF stored(4)] by simp
    ultimately have "length emb' = dim m" using sch by auto
    then show ?thesis using stored(1) assms(2) by simp
  qed
qed

text \<open>
  C3, as stated: \<open>set\<close> with an embedding of the wrong length fails with
  \<open>ValueError\<close> and writes nothing, so that a later \<open>get\<close> returns the prior value.
  The store has dimension 2 and holds \<open>abc\<close> under \<open>k\<close>; \<open>set\<close> with an embedding of
  length 3 deletes that row, the engine then refuses the insert: the call ends with
  \<open>MilvusException\<close>, and \<open>get\<close> ends with \<open>KeyError\<close>.
\<close>

theorem set_wrong_length_counterexample:
  "length [1, 0, 0 :: real] \<noteq> dim store_ltm \<and>
   getitem sample_codec store_ltm (coll_of k_rows) (KStr ''k'') = Inr ''abc'' \<and>
   setitem sample_codec store_ltm (coll_of k_rows) (KStr ''k'')
     (Dict (Some ''def'') (Some (Some [1, 0, 0]))) = (Inl MilvusException, coll_of []) \<and>
   getitem sample_codec store_ltm (coll_of []) (KStr ''k'') = Inl KeyError"
proof -
  have p: "plain (str_py (KStr ''k''))" by (simp add: plain_def)
  have c: "(coll_of k_rows)(''default'' \<mapsto>
             \<lparr>key_max = 256, value_max = 65535, coll_dim = 2, rows = []\<rparr>) = coll_of []"
    by (simp add: coll_of_def)
  have "setitem sample_codec store_ltm (coll_of k_rows) (KStr ''k'')
     (Dict (Some ''def'') (Some (Some [1, 0, 0]))) = (Inl MilvusException, coll_of [])"
    using c
    by (simp add: setitem_def contains_plain delitem_plain create_collection_if_absent_def
        has_collection_def insert_row_def serialize_def sample_codec_def plain_def
        rows_of_def k_rows_def coll_of_def store_ltm_def)
  then show ?thesis
    by (simp add: getitem_plain [OF p] rows_of_def k_rows_def coll_of_def store_ltm_def
        deserialize_def sample_codec_def)
qed

text \<open>
  C3, amended: \<open>set\<close> fails with \<open>ValueError\<close> when the value is not a dictionary,
  lacks \<open>"value"\<close> or \<open>"embedding"\<close>, or (its payload being encodable) has the
  embedding \<open>None\<close>; the backend is then as \<open>_create_collection\<close> left it, with the
  rows it had. The length of the embedding is not checked by the store: on a
  collection with the schema the store declares, \<open>set\<close> with an embedding whose
  length differs from the dimension never succeeds and never ends with \<open>ValueError\<close>
  (it ends with the error of \<open>pickle\<close> or of the engine), and it adds no row.
\<close>

theorem set_invalid_value:
  "(val = NotDict \<or> val = Dict None oe \<or> val = Dict ov None
      \<longrightarrow> setitem c m b key val = (Inl ValueError, create_collection_if_absent m b)) \<and>
   (serialize c v = Inr s
      \<longrightarrow> setitem c m b key (Dict (Some v) (Some None))
            = (Inl ValueError, create_collection_if_absent m b)) \<and>
   rows_of (create_collection_if_absent m b) (storage_name m) = rows_of b (storage_name m) \<and>
   (owned m b \<and> length emb \<noteq> dim m
      \<longrightarrow> (fst (setitem c m b key (Dict (Some v) (Some (Some emb)))) = Inl PicklingError \<or>
           fst (setitem c m b key (Dict (Some v) (Some (Some emb)))) = Inl MilvusException) \<and>
          set (rows_of (snd (setitem c m b key (Dict (Some v) (Some (Some emb))))) (storage_name m))
            \<subseteq> set (rows_of b (storage_name m)))"
proof -
  have 1: "val = NotDict \<or> val = Dict None oe \<or> val = Dict ov None
      \<longrightarrow> setitem c m b key val = (Inl ValueError, create_collection_if_absent m b)"
    by (cases ov) (auto simp: setitem_def)
  have 2: "serialize c v = Inr s
      \<longrightarrow> setitem c m b key (Dict (Some v) (Some None))
            = (Inl ValueError, create_collection_if_absent m b)"
    by (simp add: setitem_def)
  show ?thesis using 1 2 setitem_wrong_length [of m b emb c key v]
    by (simp add: rows_of_create)
qed

theorem set_invalid_value_witness:
  "setitem sample_codec store_ltm (coll_of k_rows) (KStr ''k'') NotDict
     = (Inl ValueError, create_collection_if_absent store_ltm (coll_of k_rows)) \<and>
   serialize sample_codec ''def'' = Inr ''fedP'' \<and>
   setitem sample_codec store_ltm (coll_of k_rows) (KStr ''k'') (Dict (Some ''def'') (Some None))
     = (Inl ValueError, create_collection_if_absent store_ltm (coll_of k_rows)) \<and>
   owned store_ltm (coll_of k_rows) \<and> length [1, 0, 0 :: real] \<noteq> dim store_ltm \<and>
   (fst (setitem sample_codec store_ltm (coll_of k_rows) (KStr ''k'')
           (Dict (Some ''def'') (Some (Some [1, 0, 0])))) = Inl PicklingError \<or>
    fst (setitem sample_codec store_ltm (coll_of k_rows) (KStr ''k'')
           (Dict (Some ''def'') (Some (Some [1, 0, 0])))) = Inl MilvusException) \<and>
   set (rows_of (snd (setitem sample_codec store_ltm (coll_of k_rows) (KStr ''k'')
                        (Dict (Some ''def'') (Some (Some [1, 0, 0]))))) (storage_name store_ltm))
     \<subseteq> set (rows_of (coll_of k_rows) (storage_name store_ltm))"
proof -
  have h: "serialize sample_codec ''def'' = Inr ''fedP''"
    "owned store_ltm (coll_of k_rows)" "length [1, 0, 0 :: real] \<noteq> dim store_ltm"
    by (simp_all add: serialize_def sample_codec_def owned_def coll_of_def store_ltm_def)
  from set_invalid_value [where val = NotDict and c = sample_codec and m = store_ltm
      and b = "coll_of k_rows" and key = "KStr ''k''" and v = "''def''" and s = "''fedP''"
      and emb = "[1, 0, 0]"]
  show ?thesis using h by simp
qed

section \<open>The record under the empty key\<close>

lemma plain_Nil: "plain []"
  by (simp add: plain_def)

lemma delete_rows_nonempty:
  "b n = Some col \<Longrightarrow>
   delete_rows b n nonempty_expr = Inr (b(n \<mapsto> col\<lparr>rows := filter (\<lambda>r. fst r = []) (rows col)\<rparr>))"
  by (simp add: delete_rows_def parse_filter_nonempty)

text \<open>
  C9: when the collection holds a row under the empty key, \<open>__len__\<close> counts only the
  rows with a non-empty key (fewer than there are), \<open>values\<close> (when its call of
  \<open>load\<close> returns; it ends with the error of \<open>load\<close> otherwise) and \<open>items\<close> decode
  only those, and \<open>clear\<close> deletes only those: the row is still there after
  \<open>clear\<close>, when \<open>__len__\<close> is 0. \<open>__contains__\<close> of the empty key is true and
  \<open>__getitem__\<close> decodes the value of a row with the empty key.
\<close>

theorem empty_key_record:
  assumes "b (storage_name m) = Some col" and "([], v, e) \<in> set (rows col)"
  shows "len m b = Inr (length (filter (\<lambda>r. fst r \<noteq> []) (rows col))) \<and>
         length (filter (\<lambda>r. fst r \<noteq> []) (rows col)) < length (rows col) \<and>
         values_ltm c load m b =
           (case load True b of
              Some err \<Rightarrow> Inl err
            | None \<Rightarrow> decode_values c (filter (\<lambda>r. fst r \<noteq> []) (rows col))) \<and>
         items c m b = decode_items c (filter (\<lambda>r. fst r \<noteq> []) (rows col)) \<and>
         clear m b = (Inr (), b(storage_name m \<mapsto> col\<lparr>rows := filter (\<lambda>r. fst r = []) (rows col)\<rparr>)) \<and>
         ([], v, e) \<in> set (rows_of (snd (clear m b)) (storage_name m)) \<and>
         len m (snd (clear m b)) = Inr 0 \<and>
         contains m b (KStr []) = Inr True \<and>
         (\<exists>v' e'. ([], v', e') \<in> set (rows col) \<and> getitem c m b (KStr []) = deserialize c v')"
proof -
  let ?n = "storage_name m"
  have r: "rows_of b ?n = rows col"
    using assms(1) by (simp add: rows_of_def)
  have 1: "len m b = Inr (length (filter (\<lambda>r. fst r \<noteq> []) (rows col)))"
    by (simp add: len_def query_nonempty r)
  have 2: "length (filter (\<lambda>r. fst r \<noteq> []) (rows col)) < length (rows col)"
    using assms(2) by (intro length_filter_less [of "([], v, e)"]) simp_all
  have 3: "values_ltm c load m b =
           (case load True b of
              Some err \<Rightarrow> Inl err
            | None \<Rightarrow> decode_values c (filter (\<lambda>r. fst r \<noteq> []) (rows col)))"
    by (cases "load True b") (simp_all add: values_ltm_def query_nonempty r)
  have 4: "items c m b = decode_items c (filter (\<lambda>r. fst r \<noteq> []) (rows col))"
    by (simp add: items_def query_nonempty r)
  have 5: "clear m b = (Inr (), b(?n \<mapsto> col\<lparr>rows := filter (\<lambda>r. fst r = []) (rows col)\<rparr>))"
    using delete_rows_nonempty [where b = b and n = ?n and col = col] assms(1)
    by (simp add: clear_def)
  have 6: "([], v, e) \<in> set (rows_of (snd (clear m b)) ?n)"
    using assms(2) by (simp add: 5 rows_of_def)
  have 7: "len m (snd (clear m b)) = Inr 0"
    by (simp add: 5 len_def query_nonempty rows_of_def)
  have f: "filter (\<lambda>r. fst r = []) (rows col) \<noteq> []"
    using assms(2) by (force simp: filter_empty_conv)
  have 8: "contains m b (KStr []) = Inr True"
    using f by (simp add: contains_plain plain_Nil r)
  obtain r0 rs where r0: "filter (\<lambda>r. fst r = []) (rows col) = r0 # rs"
    using f by (cases "filter (\<lambda>r. fst r = []) (rows col)") auto
  then have "r0 \<in> set (filter (\<lambda>r. fst r = []) (rows col))" by simp
  then have m0: "r0 \<in> set (rows col)" "fst r0 = []" by auto
  have "getitem c m b (KStr []) = deserialize c (fst (snd r0))"
    by (simp add: getitem_plain plain_Nil r r0)
  moreover have "([], fst (snd r0), snd (snd r0)) \<in> set (rows col)"
    using m0 by (metis prod.collapse)
  ultimately have 9: "\<exists>v' e'. ([], v', e') \<in> set (rows col) \<and> getitem c m b (KStr []) = deserialize c v'"
    by blast
  show ?thesis using 1 2 3 4 5 6 7 8 9 by blast
qed

theorem empty_key_record_witness:
  "coll_of empty_key_rows (storage_name store_ltm)
     = Some \<lparr>key_max = 256, value_max = 65535, coll_dim = 2, rows = empty_key_rows\<rparr> \<and>
   ([], ''cbaP'', [1, 0]) \<in> set empty_key_rows \<and>
   len store_ltm (coll_of empty_key_rows) = Inr 1 \<and>
   values_ltm sample_codec (\<lambda>refresh b. None) store_ltm (coll_of empty_key_rows) = Inr [''def''] \<and>
   values_ltm sample_codec (\<lambda>refresh b. Some MilvusException) store_ltm (coll_of empty_key_rows)
     = Inl MilvusException \<and>
   items sample_codec store_ltm (coll_of empty_key_rows) = Inr [(''a'', ''def'')] \<and>
   rows_of (snd (clear store_ltm (coll_of empty_key_rows))) (storage_name store_ltm)
     = [([], ''cbaP'', [1, 0])] \<and>
   contains store_ltm (coll_of empty_key_rows) (KStr []) = Inr True \<and>
   getitem sample_codec store_ltm (coll_of empty_key_rows) (KStr []) = Inr ''abc''"
proof -
  have h: "coll_of empty_key_rows (storage_name store_ltm)
     = Some \<lparr>key_max = 256, value_max = 65535, coll_dim = 2, rows = empty_key_rows\<rparr>"
    "([], ''cbaP'', [1, 0]) \<in> set (rows \<lparr>key_max = 256, value_max = 65535, coll_dim = 2, rows = empty_key_rows\<rparr>)"
    by (simp_all add: coll_of_def store_ltm_def empty_key_rows_def)
  have d: "deserialize sample_codec ''cbaP'' = Inr ''abc''" "deserialize sample_codec ''fedP'' = Inr ''def''"
    by (simp_all add: deserialize_def sample_codec_def)
  from empty_key_record [where b = "coll_of empty_key_rows" and m = store_ltm and c = sample_codec
      and col = "\<lparr>key_max = 256, value_max = 65535, coll_dim = 2, rows = empty_key_rows\<rparr>"
      and v = "''cbaP''" and e = "[1, 0]" and load = "\<lambda>refresh b. None"]
    empty_key_record [where b = "coll_of empty_key_rows" and m = store_ltm and c = sample_codec
      and col = "\<lparr>key_max = 256, value_max = 65535, coll_dim = 2, rows = empty_key_rows\<rparr>"
      and v = "''cbaP''" and e = "[1, 0]" and load = "\<lambda>refresh b. Some MilvusException"] h
  show ?thesis using d
    by (auto simp: empty_key_rows_def rows_of_def)
qed

section \<open>One record for each key\<close>

lemma unique_keys_filter: "unique_keys rs \<Longrightarrow> unique_keys (filter P rs)"
  by (simp add: unique_keys_def distinct_map_filter)

lemma unique_keys_append:
  "unique_keys rs \<Longrightarrow> unique_keys (filter (\<lambda>r. fst r \<noteq> k) rs @ [(k, s, e)])"
  by (auto simp: unique_keys_def distinct_map_filter)

lemma unique_keys_count: "unique_keys rs \<Longrightarrow> length (filter (\<lambda>r. fst r = k) rs) \<le> 1"
proof (induction rs)
  case Nil
  then show ?case by simp
next
  case (Cons r rs)
  then have u: "unique_keys rs" "fst r \<notin> fst ` set rs"
    by (simp_all add: unique_keys_def)
  show ?case
  proof (cases "fst r = k")
    case True
    then have "\<forall>x \<in> set rs. fst x \<noteq> k"
      using u(2) by (metis imageI)
    then have "filter (\<lambda>r. fst r = k) rs = []"
      by (simp add: filter_empty_conv)
    then show ?thesis using True by simp
  next
    case False
    then show ?thesis using Cons.IH [OF u(1)] by simp
  qed
qed

lemma delitem_rows_plain:
  assumes "plain (str_py key)"
  shows "rows_of (snd (delitem m b key)) (storage_name m) = rows_of b (storage_name m) \<or>
         rows_of (snd (delitem m b key)) (storage_name m)
           = filter (\<lambda>r. fst r \<noteq> str_py key) (rows_of b (storage_name m))"
  by (simp add: delitem_plain [OF assms] rows_of_def)

lemma setitem_rows_plain:
  assumes "plain (str_py key)"
  shows "rows_of (snd (setitem c m b key val)) (storage_name m) = rows_of b (storage_name m) \<or>
         rows_of (snd (setitem c m b key val)) (storage_name m)
           = filter (\<lambda>r. fst r \<noteq> str_py key) (rows_of b (storage_name m)) \<or>
         (\<exists>s emb. rows_of (snd (setitem c m b key val)) (storage_name m)
           = filter (\<lambda>r. fst r \<noteq> str_py key) (rows_of b (storage_name m)) @ [(str_py key, s, emb)])"
proof -
  let ?n = "storage_name m"
  let ?k = "str_py key"
  let ?b1 = "create_collection_if_absent m b"
  have p: "plain (str_py (KStr ?k))" using assms by simp
  have r1: "rows_of ?b1 ?n = rows_of b ?n" by (rule rows_of_create)
  have absent: "contains m ?b1 (KStr ?k) = Inr False \<Longrightarrow>
      filter (\<lambda>r. fst r \<noteq> ?k) (rows_of b ?n) = rows_of b ?n"
    using contains_plain [OF p, of m ?b1] r1 by (auto simp: filter_empty_conv filter_id_conv)
  have deleted: "delitem m ?b1 (KStr ?k) = (Inr (), b2) \<Longrightarrow>
      rows_of b2 ?n = filter (\<lambda>r. fst r \<noteq> ?k) (rows_of b ?n)" for b2
    using delitem_plain [OF p, of m ?b1] r1
    by (auto simp: rows_of_def split: if_splits)
  have failed: "delitem m ?b1 (KStr ?k) = (Inl e, b2) \<Longrightarrow> b2 = ?b1" for e b2
    using delitem_plain [OF p, of m ?b1] by (auto split: if_splits)
  show ?thesis
  proof (cases rule: setitem_outcome [of c m b key val])
    case shape
    then show ?thesis using r1 by simp
  next
    case pickle
    then show ?thesis using r1 by simp
  next
    case query_failed
    then show ?thesis using r1 by simp
  next
    case (delete_failed e b2)
    then show ?thesis using failed [of e b2] r1 by simp
  next
    case (insert_failed v s emb b2 e)
    then have "rows_of b2 ?n = filter (\<lambda>r. fst r \<noteq> ?k) (rows_of b ?n)"
      using absent deleted [of b2] r1 by auto
    then show ?thesis using insert_failed(5) by simp
  next
    case (stored v s emb b2 b3)
    then have "rows_of b2 ?n = filter (\<lambda>r. fst r \<noteq> ?k) (rows_of b ?n)"
      using absent deleted [of b2] r1 by auto
    moreover have "rows_of b3 ?n = rows_of b2 ?n @ [(?k, s, emb)]"
      using insert_row_result [OF stored(4)] by simp
    ultimately show ?thesis using stored(5) by simp
  qed
qed

lemma unique_keys_setitem:
  assumes "plain (str_py key)" and "unique_keys (rows_of b (storage_name m))"
  shows "unique_keys (rows_of (snd (setitem c m b key val)) (storage_name m))"
  using setitem_rows_plain [OF assms(1), of c m b val] assms(2)
  by (auto simp: unique_keys_filter unique_keys_append)

lemma unique_keys_delitem:
  assumes "plain (str_py key)" and "unique_keys (rows_of b (storage_name m))"
  shows "unique_keys (rows_of (snd (delitem m b key)) (storage_name m))"
  using delitem_rows_plain [OF assms(1), of m b] assms(2)
  by (auto simp: unique_keys_filter)

lemma unique_keys_clear:
  assumes "unique_keys (rows_of b (storage_name m))"
  shows "unique_keys (rows_of (snd (clear m b)) (storage_name m))"
proof (cases "b (storage_name m)")
  case None
  then show ?thesis using assms by (simp add: clear_def delete_rows_def)
next
  case (Some col)
  then show ?thesis
    using assms delete_rows_nonempty [where b = b and n = "storage_name m" and col = col]
    by (simp add: clear_def rows_of_def unique_keys_filter)
qed

lemma unique_keys_pop:
  assumes "plain (str_py key)" and "unique_keys (rows_of b (storage_name m))"
  shows "unique_keys (rows_of (snd (pop c m b key dflt)) (storage_name m))"
  using pop_backend [of c m b key dflt] unique_keys_delitem [OF assms] assms(2) by auto

lemma unique_keys_update:
  assumes "\<forall>k \<in> set (map fst other). plain (str_py k)"
    and "unique_keys (rows_of b (storage_name m))"
  shows "unique_keys (rows_of (snd (update c m b other)) (storage_name m))"
  using assms
proof (induction other arbitrary: b)
  case Nil
  then show ?case by simp
next
  case (Cons kv other)
  obtain r b' where s: "setitem c m b (fst kv) (snd kv) = (r, b')"
    by (cases "setitem c m b (fst kv) (snd kv)")
  have u: "unique_keys (rows_of b' (storage_name m))"
    using unique_keys_setitem [of "fst kv" b m c "snd kv"] Cons.prems s by simp
  show ?case
  proof (cases r)
    case (Inl e)
    then show ?thesis using s u by simp
  next
    case (Inr x)
    then show ?thesis using s Cons.IH [OF _ u] Cons.prems(1) by simp
  qed
qed

lemma unique_keys_call:
  assumes "\<forall>k \<in> set (op_keys op). plain (str_py k)"
    and "unique_keys (rows_of b (storage_name m))"
  shows "unique_keys (rows_of (call c m op b) (storage_name m))"
  using assms
  by (cases op)
     (simp_all add: unique_keys_setitem unique_keys_delitem unique_keys_clear unique_keys_pop
       unique_keys_update)

lemma unique_keys_fold:
  assumes "\<forall>op \<in> set ops. \<forall>k \<in> set (op_keys op). plain (str_py k)"
    and "unique_keys (rows_of b (storage_name m))"
  shows "unique_keys (rows_of (fold (call c m) ops b) (storage_name m))"
  using assms
proof (induction ops arbitrary: b)
  case Nil
  then show ?case by simp
next
  case (Cons op ops)
  then show ?case using unique_keys_call [of op b m c] by simp
qed

lemma overwrite_rows:
  assumes k: "plain (str_py key)" "length (str_py key) \<le> 256"
    and s1: "serialize c p1 = Inr s1" "length s1 \<le> 65535"
    and s2: "serialize c p2 = Inr s2" "length s2 \<le> 65535"
    and e: "length e1 = dim m" "length e2 = dim m"
    and o: "owned m b"
  shows "filter (\<lambda>r. fst r = str_py key)
           (rows_of (fold (call c m)
              [OpSet key (Dict (Some p1) (Some (Some e1))), OpSet key (Dict (Some p2) (Some (Some e2)))] b)
              (storage_name m))
         = [(str_py key, s2, e2)]"
proof -
  obtain b' where b': "setitem c m b key (Dict (Some p1) (Some (Some e1))) = (Inr (), b')"
      "owned m b'"
    using setitem_valid [OF k s1 e(1) o] by blast
  obtain b'' where b'': "setitem c m b' key (Dict (Some p2) (Some (Some e2))) = (Inr (), b'')"
      "rows_of b'' (storage_name m)
         = filter (\<lambda>r. fst r \<noteq> str_py key) (rows_of b' (storage_name m)) @ [(str_py key, s2, e2)]"
    using setitem_valid [OF k s2 e(2) b'(2)] by blast
  have "fold (call c m)
      [OpSet key (Dict (Some p1) (Some (Some e1))), OpSet key (Dict (Some p2) (Some (Some e2)))] b = b''"
    using b'(1) b''(1) by simp
  then show ?thesis using b''(2) by (simp add: filter_empty_conv)
qed

text \<open>
  C2: for every key there is at most one record after any sequence of operations, and
  two writes of a key leave exactly one record, with the payload of the second.
  \<open>__setitem__\<close> looks for the prior row with the filter \<open>f'key == "{key_str}"'\<close>,
  into which the key is pasted unescaped. With the key \<open>a" or key == "b\<close> the filter
  is the text \<open>key == "a" or key == "b"\<close>: the existence query of the second write
  looks for the keys \<open>a\<close> and \<open>b\<close>, finds nothing and deletes nothing, and after the
  two writes the collection holds two rows with this key.
\<close>

theorem one_record_per_key_injected_key:
  "key_expr injected_key = key_expr ''a'' @ '' or '' @ key_expr ''b'' \<and>
   rows_of (fold (call sample_codec store_ltm)
      [OpSet (KStr injected_key) (Dict (Some ''abc'') (Some (Some [1, 0]))),
       OpSet (KStr injected_key) (Dict (Some ''def'') (Some (Some [1, 0])))] Map.empty)
     (storage_name store_ltm)
   = [(injected_key, ''cbaP'', [1, 0]), (injected_key, ''fedP'', [1, 0])]"
  by (rule conjI [OF key_expr_injected])
     (simp add: setitem_def contains_def query_def insert_row_def delitem_def
       create_collection_if_absent_def has_collection_def create_collection_def
       parse_filter_injected serialize_def sample_codec_def store_ltm_def rows_of_def Let_def
       injected_key_def [symmetric],
      simp add: injected_key_def)

text \<open>
  Where the keys need no escaping the rows keep distinct keys: when no two rows of the
  collection have the same key, the same holds after any sequence of calls whose keys
  have no double quote and no backslash in their string form. For such a key of at
  most 256 characters, two writes with accepted values leave exactly one row for the
  key, with the encoding and the embedding of the second write.
\<close>

theorem one_record_per_key:
  assumes "unique_keys (rows_of b (storage_name m))"
    and "\<forall>op \<in> set ops. \<forall>k \<in> set (op_keys op). plain (str_py k)"
  shows "unique_keys (rows_of (fold (call c m) ops b) (storage_name m)) \<and>
         (\<forall>k. length (filter (\<lambda>r. fst r = k) (rows_of (fold (call c m) ops b) (storage_name m))) \<le> 1) \<and>
         (plain (str_py key) \<and> length (str_py key) \<le> 256 \<and>
          serialize c p1 = Inr s1 \<and> length s1 \<le> 65535 \<and>
          serialize c p2 = Inr s2 \<and> length s2 \<le> 65535 \<and>
          length e1 = dim m \<and> length e2 = dim m \<and> owned m b
            \<longrightarrow> filter (\<lambda>r. fst r = str_py key)
                  (rows_of (fold (call c m)
                     [OpSet key (Dict (Some p1) (Some (Some e1))),
                      OpSet key (Dict (Some p2) (Some (Some e2)))] b)
                     (storage_name m))
                = [(str_py key, s2, e2)])"
proof -
  have u: "unique_keys (rows_of (fold (call c m) ops b) (storage_name m))"
    using unique_keys_fold [OF assms(2) assms(1)] .
  then have "\<forall>k. length (filter (\<lambda>r. fst r = k) (rows_of (fold (call c m) ops b) (storage_name m))) \<le> 1"
    using unique_keys_count by blast
  then show ?thesis using u overwrite_rows [of key c p1 s1 p2 s2 e1 m e2 b] by blast
qed

theorem one_record_per_key_witness:
  "unique_keys (rows_of Map.empty (storage_name store_ltm)) \<and>
   rows_of (fold (call sample_codec store_ltm) sample_ops Map.empty) (storage_name store_ltm)
     = [(''k'', ''fedP'', [1, 1])] \<and>
   length (filter (\<lambda>r. fst r = ''k'')
     (rows_of (fold (call sample_codec store_ltm) sample_ops Map.empty) (storage_name store_ltm))) \<le> 1 \<and>
   filter (\<lambda>r. fst r = ''k'')
     (rows_of (fold (call sample_codec store_ltm)
        [OpSet (KStr ''k'') (Dict (Some ''abc'') (Some (Some [1, 0]))),
         OpSet (KStr ''k'') (Dict (Some ''def'') (Some (Some [1, 1])))] Map.empty)
        (storage_name store_ltm))
     = [(''k'', ''fedP'', [1, 1])]"
proof -
  have h1: "unique_keys (rows_of Map.empty (storage_name store_ltm))"
    by (simp add: unique_keys_def rows_of_def)
  have h2: "\<forall>op \<in> set sample_ops. \<forall>k \<in> set (op_keys op). plain (str_py k)"
    by (simp add: sample_ops_def plain_def str_nat.simps)
  have h3: "plain (str_py (KStr ''k'')) \<and> length (str_py (KStr ''k'')) \<le> 256 \<and>
          serialize sample_codec ''abc'' = Inr ''cbaP'' \<and> length ''cbaP'' \<le> 65535 \<and>
          serialize sample_codec ''def'' = Inr ''fedP'' \<and> length ''fedP'' \<le> 65535 \<and>
          length [1, 0 :: real] = dim store_ltm \<and> length [1, 1 :: real] = dim store_ltm \<and>
          owned store_ltm Map.empty"
    by (simp add: plain_def serialize_def sample_codec_def store_ltm_def owned_def)
  have r: "rows_of (fold (call sample_codec store_ltm) sample_ops Map.empty) (storage_name store_ltm)
     = [(''k'', ''fedP'', [1, 1])]"
    by (simp add: sample_ops_def setitem_def contains_plain delitem_plain plain_def str_nat.simps
        insert_row_def create_collection_if_absent_def has_collection_def create_collection_def
        serialize_def sample_codec_def store_ltm_def rows_of_def Let_def)
  from one_record_per_key [OF h1 h2, of sample_codec "KStr ''k''" "''abc''" "''cbaP''" "''def''"
      "''fedP''" "[1, 0]" "[1, 1]"] h3
  show ?thesis using h1 r by simp
qed

section \<open>What every call preserves\<close>

text \<open>
  The two conditions on the stored state that the theorems on \<open>get_by_vector\<close> and
  on writes assume are kept by every call: the collection keeps the schema the store
  declares, and, when decoding undoes encoding, every stored value decodes.
\<close>

lemma owned_call: "owned m b \<Longrightarrow> owned m (call c m op b)"
  by (auto simp: owned_schema schema_of_call schema_of_create)

lemma setitem_rows_subset:
  "set (rows_of (snd (setitem c m b key val)) (storage_name m))
     \<subseteq> set (rows_of b (storage_name m)) \<union>
        {r. \<exists>v s emb. val = Dict (Some v) (Some (Some emb)) \<and> serialize c v = Inr s \<and>
              r = (str_py key, s, emb)}"
proof -
  let ?n = "storage_name m"
  let ?b1 = "create_collection_if_absent m b"
  have del: "set (rows_of (snd (delitem m ?b1 (KStr (str_py key)))) ?n) \<subseteq> set (rows_of b ?n)"
    using delitem_result [of m ?b1 "KStr (str_py key)" ?n] by (simp add: rows_of_create)
  show ?thesis
  proof (cases rule: setitem_outcome [of c m b key val])
    case shape
    then show ?thesis by (simp add: rows_of_create)
  next
    case pickle
    then show ?thesis by (simp add: rows_of_create)
  next
    case query_failed
    then show ?thesis by (simp add: rows_of_create)
  next
    case (delete_failed e b2)
    then show ?thesis using del by auto
  next
    case (insert_failed v s emb b2 e)
    then have "set (rows_of b2 ?n) \<subseteq> set (rows_of b ?n)"
      using del by (auto simp: rows_of_create)
    then show ?thesis using insert_failed(5) by auto
  next
    case (stored v s emb b2 b3)
    then have "set (rows_of b2 ?n) \<subseteq> set (rows_of b ?n)"
      using del by (auto simp: rows_of_create)
    moreover have "rows_of b3 ?n = rows_of b2 ?n @ [(str_py key, s, emb)]"
      using insert_row_result [OF stored(4)] by simp
    ultimately show ?thesis using stored(1,2,5) by auto
  qed
qed

lemma decodable_subset:
  "decodable c rs \<Longrightarrow> set rs' \<subseteq> set rs \<Longrightarrow> decodable c rs'"
  by (auto simp: decodable_def list_all_iff)

lemma decodable_setitem:
  assumes "codec_ok c" and "decodable c (rows_of b (storage_name m))"
  shows "decodable c (rows_of (snd (setitem c m b key val)) (storage_name m))"
  unfolding decodable_def list_all_iff
proof
  fix r assume "r \<in> set (rows_of (snd (setitem c m b key val)) (storage_name m))"
  then consider "r \<in> set (rows_of b (storage_name m))"
    | v s emb where "serialize c v = Inr s" "r = (str_py key, s, emb)"
    using setitem_rows_subset [of c m b key val] by blast
  then show "\<not> isl (deserialize c (fst (snd r)))"
  proof cases
    case 1
    then show ?thesis using assms(2) by (simp add: decodable_def list_all_iff)
  next
    case 2
    then show ?thesis using serialize_ok [OF assms(1) 2(1)] by simp
  qed
qed

lemma clear_rows_subset:
  "set (rows_of (snd (clear m b)) n') \<subseteq> set (rows_of b n')"
  by (cases "delete_rows b (storage_name m) nonempty_expr")
     (simp_all add: clear_def delete_rows_result)

lemma decodable_update:
  assumes "codec_ok c" and "decodable c (rows_of b (storage_name m))"
  shows "decodable c (rows_of (snd (update c m b other)) (storage_name m))"
  using assms(2)
proof (induction other arbitrary: b)
  case Nil
  then show ?case by simp
next
  case (Cons kv other)
  obtain r b' where s: "setitem c m b (fst kv) (snd kv) = (r, b')"
    by (cases "setitem c m b (fst kv) (snd kv)")
  then have d: "decodable c (rows_of b' (storage_name m))"
    using decodable_setitem [OF assms(1) Cons.prems, of "fst kv" "snd kv"] by simp
  show ?case
  proof (cases r)
    case (Inl e)
    then show ?thesis using s d by simp
  next
    case (Inr x)
    then show ?thesis using s Cons.IH [OF d] by simp
  qed
qed

lemma decodable_call:
  assumes "codec_ok c" and "decodable c (rows_of b (storage_name m))"
  shows "decodable c (rows_of (call c m op b) (storage_name m))"
proof (cases op)
  case (OpSet key val)
  then show ?thesis using decodable_setitem [OF assms] by simp
next
  case (OpDel key)
  then show ?thesis
    using decodable_subset [OF assms(2)] delitem_result [of m b key "storage_name m"] by simp
next
  case OpClear
  then show ?thesis
    using decodable_subset [OF assms(2)] clear_rows_subset [of m b "storage_name m"] by simp
next
  case (OpPop key dflt)
  then show ?thesis
    using decodable_subset [OF assms(2)] delitem_result [of m b key "storage_name m"]
      pop_backend [of c m b key dflt] assms(2) by auto
next
  case (OpUpdate other)
  then show ?thesis using decodable_update [OF assms] by simp
qed (simp_all add: assms(2))

lemma decodable_fold:
  assumes "codec_ok c" and "decodable c (rows_of b (storage_name m))"
  shows "decodable c (rows_of (fold (call c m) ops b) (storage_name m))"
  using assms(2)
  by (induction ops arbitrary: b) (simp_all add: decodable_call [OF assms(1)])

lemma owned_fold: "owned m b \<Longrightarrow> owned m (fold (call c m) ops b)"
  by (induction ops arbitrary: b) (simp_all add: owned_call)

end
